theory Spec2Isabelle
  imports Complex_Main "HOL-Library.Sublist"
begin

section \<open>Conventions of the embedding\<close>

text \<open>
  The development embeds the client-side logic of the assistant's front end: the diagram
  component (\<^verbatim>\<open>Mermaid\<close>) and the page component (\<^verbatim>\<open>Home\<close>).

  \<^item> A JavaScript string is a \<open>string\<close>; a \<open>char\<close> stands for one UTF-16 code unit in
    the range 0..255 (ASCII and Latin-1), on which every string operation used by the
    source (\<^verbatim>\<open>replace\<close>, \<^verbatim>\<open>trim\<close>, \<^verbatim>\<open>slice\<close>, \<^verbatim>\<open>startsWith\<close>, \<^verbatim>\<open>toLowerCase\<close>) is
    modelled exactly. The pictographs of a few literals of the source lie outside this
    range; they are written as their UTF-8 bytes, and no operation inspects them.
  \<^item> The zoom level is a JavaScript number. Every level reachable from the initial level
    1 is a multiple of 0.25 between 0.5 and 5 (lemma \<open>zoomLevel_run_quarters\<close>), which a
    double represents exactly and adds exactly, so the level is modelled as a \<open>rat\<close>.
  \<^item> A React handler reads the state of the render that created it and queues its
    writes. A handler is therefore a function of the rendered state; where one handler
    calls another after a write, the callee still reads the rendered state and its
    writes land on the state written so far.
  \<^item> \<^verbatim>\<open>Date.now()\<close> is an argument of the handler that calls it.
\<close>

section \<open>The diagram component: zoom state\<close>

record ZoomState =
  isZoomed :: bool
  zoomLevel :: rat

text \<open>\<^verbatim>\<open>useState(false)\<close> and \<^verbatim>\<open>useState(1)\<close>.\<close>

definition initialZoom :: ZoomState where
  "initialZoom = \<lparr>isZoomed = False, zoomLevel = 1\<rparr>"

text \<open>\<^verbatim>\<open>setZoomLevel(prev => Math.min(prev + 0.25, 5))\<close>\<close>

definition handleZoomIn :: "ZoomState \<Rightarrow> ZoomState" where
  "handleZoomIn st = st\<lparr>zoomLevel := min (zoomLevel st + 1/4) 5\<rparr>"

text \<open>\<^verbatim>\<open>setZoomLevel(prev => Math.max(prev - 0.25, 0.5))\<close>\<close>

definition handleZoomOut :: "ZoomState \<Rightarrow> ZoomState" where
  "handleZoomOut st = st\<lparr>zoomLevel := max (zoomLevel st - 1/4) (1/2)\<rparr>"

definition handleResetZoom :: "ZoomState \<Rightarrow> ZoomState" where
  "handleResetZoom st = st\<lparr>zoomLevel := 1\<rparr>"

definition setIsZoomed :: "bool \<Rightarrow> ZoomState \<Rightarrow> ZoomState" where
  "setIsZoomed b st = st\<lparr>isZoomed := b\<rparr>"

text \<open>
  The effect \<^verbatim>\<open>useEffect(() => { if (!isZoomed) setZoomLevel(1); }, [isZoomed])\<close> runs
  after a render in which its dependency \<open>isZoomed\<close> differs from the previous render.
  \<open>commit old new\<close> is the state once the render of \<open>new\<close>, coming from \<open>old\<close>, has run
  its effects.
\<close>

definition commit :: "ZoomState \<Rightarrow> ZoomState \<Rightarrow> ZoomState" where
  "commit old new =
     (if isZoomed new \<noteq> isZoomed old
      then (if \<not> isZoomed new then new\<lparr>zoomLevel := 1\<rparr> else new)
      else new)"

text \<open>
  The events of the component. The overlay and all its controls are rendered under
  \<^verbatim>\<open>{isZoomed && (...)}\<close>, so their events exist only while \<open>isZoomed\<close> holds; the
  thumbnail and the window's key listener always exist. A wheel event carries
  \<^verbatim>\<open>ctrlKey\<close> and whether \<^verbatim>\<open>deltaY < 0\<close>; a key event carries whether the key is
  \<^verbatim>\<open>"Escape"\<close>.
\<close>

datatype ZoomEvent =
    ThumbnailClick
  | ZoomInButton
  | ZoomOutButton
  | ResetButton
  | Wheel bool bool
  | CloseButton
  | BackdropClick
  | SurfaceAreaClick
  | KeyDown bool

fun handler :: "ZoomEvent \<Rightarrow> ZoomState \<Rightarrow> ZoomState" where
  "handler ThumbnailClick st = setIsZoomed True st"
| "handler ZoomInButton st = (if isZoomed st then handleZoomIn st else st)"
| "handler ZoomOutButton st = (if isZoomed st then handleZoomOut st else st)"
| "handler ResetButton st = (if isZoomed st then handleResetZoom st else st)"
| "handler (Wheel ctrlKey up) st =
     (if isZoomed st \<and> ctrlKey then (if up then handleZoomIn st else handleZoomOut st)
      else st)"
| "handler CloseButton st = (if isZoomed st then setIsZoomed False st else st)"
| "handler BackdropClick st = (if isZoomed st then setIsZoomed False st else st)"
| "handler SurfaceAreaClick st =
     (if isZoomed st then setIsZoomed False (setIsZoomed False st) else st)"
| "handler (KeyDown escape) st = (if escape then setIsZoomed False st else st)"

definition dispatch :: "ZoomEvent \<Rightarrow> ZoomState \<Rightarrow> ZoomState" where
  "dispatch e st = commit st (handler e st)"

fun run :: "ZoomEvent list \<Rightarrow> ZoomState \<Rightarrow> ZoomState" where
  "run [] st = st"
| "run (e # es) st = run es (dispatch e st)"

text \<open>The events that close the overlay: the close control, a click on the dimmed
  backdrop (directly or bubbling from the area around the diagram) and the cancel key.\<close>

fun closes :: "ZoomEvent \<Rightarrow> bool" where
  "closes CloseButton = True"
| "closes BackdropClick = True"
| "closes SurfaceAreaClick = True"
| "closes (KeyDown escape) = escape"
| "closes _ = False"

text \<open>The events that change the zoom level: the three controls and the wheel.\<close>

fun zooms :: "ZoomEvent \<Rightarrow> bool" where
  "zooms ZoomInButton = True"
| "zooms ZoomOutButton = True"
| "zooms ResetButton = True"
| "zooms (Wheel ctrlKey up) = True"
| "zooms _ = False"

section \<open>The page component: data model\<close>

text \<open>
  The types \<^verbatim>\<open>Message\<close> and \<^verbatim>\<open>ChatSession\<close> of the page. The field \<^verbatim>\<open>id\<close> is named
  \<open>sid\<close> and the optional field \<^verbatim>\<open>context\<close> is named \<open>context_opt\<close>; the page's state
  variable \<^verbatim>\<open>repoUrl\<close> is named \<open>pageRepoUrl\<close>, since a session has a field of that name.
\<close>

datatype Role = user | ai

record Message =
  role :: Role
  content :: string
  context_opt :: "string option"
  timestamp :: nat

record ChatSession =
  sid :: string
  title :: string
  messages :: "Message list"
  repoUrl :: string

record Command =
  cmd :: string
  label :: string
  desc :: string

definition COMMANDS :: "Command list" where
  "COMMANDS =
    [\<lparr>cmd = ''/refactor'', label = [CHR 0xE2, CHR 0x9C, CHR 0xA8] @ '' Refactor'',
      desc = ''Improve code structure & quality''\<rparr>,
     \<lparr>cmd = ''/test'', label = [CHR 0xF0, CHR 0x9F, CHR 0xA7, CHR 0xAA] @ '' Gen Test'',
      desc = ''Write unit tests for code''\<rparr>,
     \<lparr>cmd = ''/security'', label = [CHR 0xF0, CHR 0x9F, CHR 0x94, CHR 0x92] @ '' Security'',
      desc = ''Check for vulnerabilities''\<rparr>,
     \<lparr>cmd = ''/explain'', label = [CHR 0xF0, CHR 0x9F, CHR 0x8E, CHR 0x93] @ '' Explain'',
      desc = ''Explain code logic simply''\<rparr>,
     \<lparr>cmd = ''/diagram'', label = [CHR 0xF0, CHR 0x9F, CHR 0x93, CHR 0x8A] @ '' Diagram'',
      desc = ''Generate Mermaid flowchart''\<rparr>]"

text \<open>
  The state of the page that the chat logic reads and writes, and the browser's stored
  item \<^verbatim>\<open>chat_history\<close> as the page has last written it (\<open>None\<close> while it has written
  nothing). \<^verbatim>\<open>JSON.stringify\<close> followed by \<^verbatim>\<open>JSON.parse\<close> gives the collection back,
  so the item holds the collection.
\<close>

record Home =
  sessions :: "ChatSession list"
  activeSessionId :: "string option"
  pageRepoUrl :: string
  chatInput :: string
  chatLoading :: bool
  showSuggestions :: bool
  filteredCmds :: "Command list"
  chat_history :: "ChatSession list option"

definition initialHome :: Home where
  "initialHome =
    \<lparr>sessions = [], activeSessionId = None, pageRepoUrl = [], chatInput = [],
     chatLoading = False, showSuggestions = False, filteredCmds = COMMANDS,
     chat_history = None\<rparr>"

section \<open>String operations of the platform\<close>

text \<open>\<^verbatim>\<open>String.prototype.toLowerCase\<close> on code units below 256: the letters A to Z, and the
  Latin-1 capitals U+00C0 to U+00DE except the multiplication sign U+00D7.\<close>

definition toLowerCase_char :: "char \<Rightarrow> char" where
  "toLowerCase_char c =
     (let n = (of_char c :: nat)
      in if (65 \<le> n \<and> n \<le> 90) \<or> (192 \<le> n \<and> n \<le> 222 \<and> n \<noteq> 215)
         then char_of (n + 32) else c)"

definition toLowerCase :: "string \<Rightarrow> string" where
  "toLowerCase s = map toLowerCase_char s"

text \<open>\<^verbatim>\<open>Number.prototype.toString\<close> on a non-negative integer: its decimal digits.\<close>

fun toString :: "nat \<Rightarrow> string" where
  "toString n =
     (if n < 10 then [char_of (48 + n)]
      else toString (n div 10) @ [char_of (48 + n mod 10)])"

declare toString.simps [simp del]

text \<open>\<^verbatim>\<open>Array.prototype.join\<close> on an array of strings.\<close>

fun join :: "string \<Rightarrow> string list \<Rightarrow> string" where
  "join sep [] = []"
| "join sep [x] = x"
| "join sep (x # y # ys) = x @ sep @ join sep (y # ys)"

section \<open>The page component: command palette\<close>

text \<open>
  \<^verbatim>\<open>
  const val = e.target.value;
  setChatInput(val);
  if (val.startsWith("/")) {
    const searchTerm = val.toLowerCase();
    const matches = COMMANDS.filter(c => c.cmd.startsWith(searchTerm));
    setFilteredCmds(matches);
    setShowSuggestions(matches.length > 0);
  } else {
    setShowSuggestions(false);
  }
  \<close>
  The suggestion panel is rendered exactly when \<open>showSuggestions\<close> holds, and lists
  \<open>filteredCmds\<close>.
\<close>

definition handleInputChange :: "string \<Rightarrow> Home \<Rightarrow> Home" where
  "handleInputChange val st =
     (let st1 = st\<lparr>chatInput := val\<rparr>
      in if prefix ''/'' val
         then (let searchTerm = toLowerCase val;
                   matches = filter (\<lambda>c. prefix searchTerm (cmd c)) COMMANDS
               in st1\<lparr>filteredCmds := matches, showSuggestions := (length matches > 0)\<rparr>)
         else st1\<lparr>showSuggestions := False\<rparr>)"

definition selectCommand :: "string \<Rightarrow> Home \<Rightarrow> Home" where
  "selectCommand c st = st\<lparr>chatInput := c @ '' '', showSuggestions := False\<rparr>"

section \<open>The page component: session store\<close>

text \<open>\<^verbatim>\<open>setSessions(newSessions); localStorage.setItem("chat_history", ...)\<close>\<close>

definition saveSessions :: "ChatSession list \<Rightarrow> Home \<Rightarrow> Home" where
  "saveSessions newSessions st = st\<lparr>sessions := newSessions, chat_history := Some newSessions\<rparr>"

text \<open>\<^verbatim>\<open>setActiveSessionId(session.id); setRepoUrl(session.repoUrl || "")\<close>\<close>

definition loadSession :: "ChatSession \<Rightarrow> Home \<Rightarrow> Home" where
  "loadSession session st =
     st\<lparr>activeSessionId := Some (sid session), pageRepoUrl := repoUrl session\<rparr>"

text \<open>
  \<^verbatim>\<open>
  const newSession = { id: "sess_" + Date.now().toString(), title: "New Chat",
                       messages: [], repoUrl: "" };
  const updated = [newSession, ...sessions];
  saveSessions(updated);
  loadSession(newSession);
  \<close>
  \<open>r\<close> is the rendered state, whose \<open>sessions\<close> the closure reads; \<open>st\<close> is the state
  written so far by the caller.
\<close>

definition newChat :: "nat \<Rightarrow> ChatSession" where
  "newChat now = \<lparr>sid = ''sess_'' @ toString now, title = ''New Chat'', messages = [],
                  repoUrl = []\<rparr>"

definition createNewSession :: "Home \<Rightarrow> nat \<Rightarrow> Home \<Rightarrow> Home" where
  "createNewSession r now st =
     (let newSession = newChat now;
          updated = newSession # sessions r
      in loadSession newSession (saveSessions updated st))"

text \<open>
  \<^verbatim>\<open>
  if (!confirm("Are you sure you want to delete this chat?")) return;
  const updated = sessions.filter(s => s.id !== sessionId);
  saveSessions(updated);
  if (activeSessionId === sessionId) {
    if (updated.length > 0) loadSession(updated[0]);
    else { createNewSession(); }
  }
  \<close>
  \<open>confirmed\<close> is the answer of the confirmation dialog.
\<close>

definition deleteSession :: "bool \<Rightarrow> string \<Rightarrow> nat \<Rightarrow> Home \<Rightarrow> Home" where
  "deleteSession confirmed sessionId now r =
     (if \<not> confirmed then r
      else (let updated = filter (\<lambda>s. sid s \<noteq> sessionId) (sessions r);
                st1 = saveSessions updated r
            in if activeSessionId r = Some sessionId
               then (case updated of
                       s0 # _ \<Rightarrow> loadSession s0 st1
                     | [] \<Rightarrow> createNewSession r now st1)
               else st1))"

text \<open>The superseded draft of the page (\<^verbatim>\<open>app/page.tsx\<close>) ends the same handler with
  \<^verbatim>\<open>else { setActiveSessionId(null); setRepoUrl(""); }\<close>.\<close>

definition deleteSession_draft :: "bool \<Rightarrow> string \<Rightarrow> Home \<Rightarrow> Home" where
  "deleteSession_draft confirmed sessionId r =
     (if \<not> confirmed then r
      else (let updated = filter (\<lambda>s. sid s \<noteq> sessionId) (sessions r);
                st1 = saveSessions updated r
            in if activeSessionId r = Some sessionId
               then (case updated of
                       s0 # _ \<Rightarrow> loadSession s0 st1
                     | [] \<Rightarrow> st1\<lparr>activeSessionId := None, pageRepoUrl := []\<rparr>)
               else st1))"

text \<open>
  The effect run once on mount. \<open>saved\<close> is what the stored item gives: nothing (or the
  empty string), a text that \<^verbatim>\<open>JSON.parse\<close> rejects, or a collection.
  \<^verbatim>\<open>
  const saved = localStorage.getItem("chat_history");
  if (saved) {
    try {
      const parsed = JSON.parse(saved);
      setSessions(parsed);
      if (parsed.length > 0) {
        const latest = parsed[0];
        setActiveSessionId(latest.id);
        setRepoUrl(latest.repoUrl || "");
      } else { createNewSession(); }
    } catch (e) { createNewSession(); }
  } else { createNewSession(); }
  \<close>
\<close>

datatype Saved = NoItem | Unparsable | History "ChatSession list"

fun loadHistory :: "Saved \<Rightarrow> nat \<Rightarrow> Home \<Rightarrow> Home" where
  "loadHistory NoItem now r = createNewSession r now r"
| "loadHistory Unparsable now r = createNewSession r now r"
| "loadHistory (History parsed) now r =
     (let st1 = r\<lparr>sessions := parsed\<rparr>
      in case parsed of
           latest # _ \<Rightarrow> st1\<lparr>activeSessionId := Some (sid latest), pageRepoUrl := repoUrl latest\<rparr>
         | [] \<Rightarrow> createNewSession r now st1)"

text \<open>\<^verbatim>\<open>sessions.find(s => s.id === activeSessionId)\<close>, the lookup behind the transcript.\<close>

definition findSession :: "string \<Rightarrow> ChatSession list \<Rightarrow> ChatSession option" where
  "findSession i ss = find (\<lambda>s. sid s = i) ss"

text \<open>The store has an active session: the active id is set and names a session of the
  collection.\<close>

definition hasActive :: "Home \<Rightarrow> bool" where
  "hasActive st =
     (case activeSessionId st of
        None \<Rightarrow> False
      | Some a \<Rightarrow> findSession a (sessions st) \<noteq> None)"

section \<open>The page component: one chat turn\<close>

text \<open>
  A turn is \<^verbatim>\<open>handleChat\<close>, split at its only \<^verbatim>\<open>await\<close>. What the continuation keeps from
  the first half is \<open>Pending\<close>: the local constants \<^verbatim>\<open>currentSessionId\<close>,
  \<^verbatim>\<open>updatedWithUser\<close> and \<^verbatim>\<open>userMsg\<close>.
\<close>

record Pending =
  currentSessionId :: string
  updatedWithUser :: "ChatSession list"
  userMsg :: Message

text \<open>
  \<^verbatim>\<open>
  if (!chatInput) return;
  setShowSuggestions(false);
  let currentSessionId = activeSessionId;
  let currentSessions = [...sessions];
  if (!currentSessionId) {
    const newSession = { id: "sess_" + Date.now().toString(), title: "New Chat",
                         messages: [], repoUrl: repoUrl };
    currentSessionId = newSession.id;
    currentSessions = [newSession, ...sessions];
    setActiveSessionId(currentSessionId);
  }
  const userMsg = { role: "user", content: chatInput, timestamp: Date.now() };
  const updatedWithUser = currentSessions.map(s => {
    if (s.id === currentSessionId) {
      const newTitle = s.messages.length === 0 ? chatInput.slice(0, 30) + "..." : s.title;
      return { ...s, title: newTitle, messages: [...s.messages, userMsg],
               repoUrl: repoUrl || s.repoUrl };
    }
    return s;
  });
  saveSessions(updatedWithUser);
  setChatInput("");
  setChatLoading(true);
  \<close>
  The result is \<open>None\<close> when the handler returns at its first line. \<open>now1\<close> and \<open>now2\<close>
  are the two readings of the clock.
\<close>

definition handleChat_begin :: "nat \<Rightarrow> nat \<Rightarrow> Home \<Rightarrow> (Pending \<times> Home) option" where
  "handleChat_begin now1 now2 r =
     (if chatInput r = [] then None
      else
        (let st1 = r\<lparr>showSuggestions := False\<rparr>;
             newSession = \<lparr>sid = ''sess_'' @ toString now1, title = ''New Chat'',
                           messages = [], repoUrl = pageRepoUrl r\<rparr>;
             none = (case activeSessionId r of None \<Rightarrow> True | Some a \<Rightarrow> a = []);
             curId = (case activeSessionId r of
                        None \<Rightarrow> sid newSession
                      | Some a \<Rightarrow> if a = [] then sid newSession else a);
             currentSessions = (if none then newSession # sessions r else sessions r);
             st2 = (if none then st1\<lparr>activeSessionId := Some curId\<rparr> else st1);
             uMsg = \<lparr>role = user, content = chatInput r, context_opt = None,
                     timestamp = now2\<rparr>;
             updated =
               map (\<lambda>s. if sid s = curId
                         then s\<lparr>title := (if length (messages s) = 0
                                           then take 30 (chatInput r) @ ''...''
                                           else title s),
                                messages := messages s @ [uMsg],
                                repoUrl := (if pageRepoUrl r \<noteq> [] then pageRepoUrl r
                                            else repoUrl s)\<rparr>
                         else s)
                   currentSessions;
             st3 = saveSessions updated st2
         in Some (\<lparr>currentSessionId = curId, updatedWithUser = updated, userMsg = uMsg\<rparr>,
                  st3\<lparr>chatInput := [], chatLoading := True\<rparr>)))"

text \<open>The consumed fields of the answer of \<^verbatim>\<open>POST /ask-codebase\<close>, and the two ways the
  call can end.\<close>

record Response =
  answer :: string
  context_used :: "string option"
  sources :: "string list option"

datatype Outcome = Resolved Response | Rejected

text \<open>
  The message the continuation appends: on success
  \<^verbatim>\<open>
  { role: "ai", content: res.data.answer,
    context: res.data.context_used ||
             (res.data.sources ? `Sources: ${res.data.sources.join(", ")}` : undefined),
    timestamp: Date.now() }
  \<close>
  and on failure
  \<^verbatim>\<open>{ role: "ai", content: "<cross mark> Error connecting to AI. Please try again.", timestamp: Date.now() }\<close>.
\<close>

definition errorText :: string where
  "errorText = [CHR 0xE2, CHR 0x9D, CHR 0x8C] @ '' Error connecting to AI. Please try again.''"

fun reply :: "Outcome \<Rightarrow> nat \<Rightarrow> Message" where
  "reply (Resolved res) now =
     \<lparr>role = ai, content = answer res,
      context_opt =
        (let fromSources = (case sources res of
                              None \<Rightarrow> None
                            | Some ss \<Rightarrow> Some (''Sources: '' @ join '', '' ss))
         in case context_used res of
              None \<Rightarrow> fromSources
            | Some c \<Rightarrow> if c \<noteq> [] then Some c else fromSources),
      timestamp = now\<rparr>"
| "reply Rejected now =
     \<lparr>role = ai, content = errorText, context_opt = None, timestamp = now\<rparr>"

text \<open>
  The continuation, in both branches
  \<^verbatim>\<open>
  const finalSessions = updatedWithUser.map(s =>
    s.id === currentSessionId ? { ...s, messages: [...s.messages, aiMsg] } : s);
  saveSessions(finalSessions);
  \<close>
  followed by \<^verbatim>\<open>setChatLoading(false)\<close>. \<open>st\<close> is the state of the page when the call
  ends; the continuation reads none of it.
\<close>

definition handleChat_settle :: "Pending \<Rightarrow> Outcome \<Rightarrow> nat \<Rightarrow> Home \<Rightarrow> Home" where
  "handleChat_settle p out now st =
     (let msg = reply out now;
          finalSessions =
            map (\<lambda>s. if sid s = currentSessionId p
                      then s\<lparr>messages := messages s @ [msg]\<rparr> else s)
                (updatedWithUser p)
      in (saveSessions finalSessions st)\<lparr>chatLoading := False\<rparr>)"

text \<open>The superseded draft of the page handles a failed call with
  \<^verbatim>\<open>catch (error) { console.error(error); }\<close> only, and takes the context of a reply
  from \<^verbatim>\<open>context_used\<close> alone.\<close>

fun handleChat_settle_draft :: "Pending \<Rightarrow> Outcome \<Rightarrow> nat \<Rightarrow> Home \<Rightarrow> Home" where
  "handleChat_settle_draft p (Resolved res) now st =
     (let aiMsg = \<lparr>role = ai, content = answer res, context_opt = context_used res,
                   timestamp = now\<rparr>;
          finalSessions =
            map (\<lambda>s. if sid s = currentSessionId p
                      then s\<lparr>messages := messages s @ [aiMsg]\<rparr> else s)
                (updatedWithUser p)
      in (saveSessions finalSessions st)\<lparr>chatLoading := False\<rparr>)"
| "handleChat_settle_draft p Rejected now st = st\<lparr>chatLoading := False\<rparr>"

text \<open>
  The values the first half of a turn gives to \<^verbatim>\<open>currentSessionId\<close> and
  \<^verbatim>\<open>currentSessions\<close> before the user's message is added: the active session and the
  collection, or a fresh session and the collection with it in front when the active id
  is \<^verbatim>\<open>null\<close> or empty.
\<close>

definition turnId :: "nat \<Rightarrow> Home \<Rightarrow> string" where
  "turnId now1 r =
     (case activeSessionId r of
        None \<Rightarrow> ''sess_'' @ toString now1
      | Some a \<Rightarrow> if a = [] then ''sess_'' @ toString now1 else a)"

definition turnSessions :: "nat \<Rightarrow> Home \<Rightarrow> ChatSession list" where
  "turnSessions now1 r =
     (if (case activeSessionId r of None \<Rightarrow> True | Some a \<Rightarrow> a = [])
      then \<lparr>sid = ''sess_'' @ toString now1, title = ''New Chat'', messages = [],
            repoUrl = pageRepoUrl r\<rparr> # sessions r
      else sessions r)"

text \<open>
  The events of the sidebar: the button \<^verbatim>\<open>+ New\<close>, a click on the \<open>k\<close>-th listed
  session, and the delete button of the \<open>k\<close>-th listed session with the answer of the
  confirmation dialog. A row that is not listed cannot be clicked.
\<close>

datatype StoreEvent =
    NewClicked nat
  | SessionClicked nat
  | DeleteClicked nat bool nat

fun storeStep :: "StoreEvent \<Rightarrow> Home \<Rightarrow> Home" where
  "storeStep (NewClicked now) r = createNewSession r now r"
| "storeStep (SessionClicked k) r =
     (if k < length (sessions r) then loadSession (sessions r ! k) r else r)"
| "storeStep (DeleteClicked k confirmed now) r =
     (if k < length (sessions r) then deleteSession confirmed (sid (sessions r ! k)) now r
      else r)"

fun storeRun :: "StoreEvent list \<Rightarrow> Home \<Rightarrow> Home" where
  "storeRun [] r = r"
| "storeRun (e # es) r = storeRun es (storeStep e r)"

text \<open>Example states: empty sessions named by their ids, a store holding A, B and C with
  A active, and a store holding A alone.\<close>

definition exampleSession :: "string \<Rightarrow> ChatSession" where
  "exampleSession i = \<lparr>sid = i, title = ''New Chat'', messages = [], repoUrl = []\<rparr>"

definition exampleHome :: Home where
  "exampleHome =
     initialHome\<lparr>sessions := [exampleSession ''A'', exampleSession ''B'', exampleSession ''C''],
                 activeSessionId := Some ''A''\<rparr>"

definition lastHome :: Home where
  "lastHome = initialHome\<lparr>sessions := [exampleSession ''A''], activeSessionId := Some ''A''\<rparr>"

definition exampleResponse :: Response where
  "exampleResponse = \<lparr>answer = ''ok'', context_used = None, sources = None\<rparr>"




section \<open>The diagram component: sanitizer\<close>

text \<open>
  \<^verbatim>\<open>s.replace(/pat/g, rep)\<close> for a pattern that is a literal, non-empty text and a
  replacement without \<^verbatim>\<open>$\<close>: scanning from the left, every occurrence of the pattern
  that starts at or after the end of the previous one is replaced.
\<close>

fun replaceAll :: "string \<Rightarrow> string \<Rightarrow> string \<Rightarrow> string" where
  "replaceAll pat rep [] = []"
| "replaceAll pat rep (c # cs) =
     (if pat \<noteq> [] \<and> prefix pat (c # cs)
      then rep @ replaceAll pat rep (drop (length pat - 1) cs)
      else c # replaceAll pat rep cs)"

text \<open>
  The code units below 256 that \<^verbatim>\<open>trim\<close> removes and \<^verbatim>\<open>\s\<close> matches: tab, line feed,
  vertical tab, form feed, carriage return, space and no-break space. Those that
  \<^verbatim>\<open>.\<close> does not match: line feed and carriage return.
\<close>

definition isSpace :: "char \<Rightarrow> bool" where
  "isSpace c \<longleftrightarrow>
     c = CHR 0x09 \<or> c = CHR 0x0A \<or> c = CHR 0x0B \<or> c = CHR 0x0C \<or> c = CHR 0x0D
     \<or> c = CHR 0x20 \<or> c = CHR 0xA0"

definition isLineTerminator :: "char \<Rightarrow> bool" where
  "isLineTerminator c \<longleftrightarrow> c = CHR 0x0A \<or> c = CHR 0x0D"

definition trim :: "string \<Rightarrow> string" where
  "trim s = rev (dropWhile isSpace (rev (dropWhile isSpace s)))"

text \<open>
  \<^verbatim>\<open>s.replace(/^mermaid\s*/i, "")\<close>: one match at most, at the start of the text. Under
  the flag \<^verbatim>\<open>i\<close> the letters of the keyword match themselves and their ASCII capitals
  and no other code unit.
\<close>

definition startsWithMermaid :: "string \<Rightarrow> bool" where
  "startsWithMermaid s \<longleftrightarrow> map toLowerCase_char (take 7 s) = ''mermaid''"

definition stripMermaidKeyword :: "string \<Rightarrow> string" where
  "stripMermaidKeyword s =
     (if startsWithMermaid s then dropWhile isSpace (drop 7 s) else s)"

text \<open>
  The label of \<^verbatim>\<open>/ -- (.*?) -->/\<close> once \<^verbatim>\<open>" -- "\<close> has been read: the shortest run of
  code units other than line terminators that is followed by \<^verbatim>\<open>" -->"\<close>, if there is
  one.
\<close>

fun findLabel :: "string \<Rightarrow> string option" where
  "findLabel [] = None"
| "findLabel (c # cs) =
     (if prefix '' -->'' (c # cs) then Some []
      else if isLineTerminator c then None
      else map_option ((#) c) (findLabel cs))"

text \<open>\<^verbatim>\<open>label.replace(/"/g, "'")\<close>\<close>

definition safeLabel :: "string \<Rightarrow> string" where
  "safeLabel lbl = map (\<lambda>x. if x = CHR 0x22 then CHR 0x27 else x) lbl"

text \<open>
  \<^verbatim>\<open>
  cleanChart.replace(/ -- (.*?) -->/g, (match, label) => {
     const safeLabel = label.replace(/"/g, "'");
     return ` -- "${safeLabel}" -->`;
  });
  \<close>
  A match is four code units, the label and four more code units; the scan goes on
  behind it.
\<close>

fun requote :: "string \<Rightarrow> string" where
  "requote [] = []"
| "requote (c # cs) =
     (if prefix '' -- '' (c # cs)
      then (case findLabel (drop 3 cs) of
              Some lbl \<Rightarrow>
                '' -- '' @ [CHR 0x22] @ safeLabel lbl @ [CHR 0x22] @ '' -->''
                  @ requote (drop (3 + length lbl + 4) cs)
            | None \<Rightarrow> c # requote cs)
      else c # requote cs)"

text \<open>
  The cleanup of \<^verbatim>\<open>renderChart\<close>. The fence is three grave accents (code unit 0x60).
  \<^verbatim>\<open>
  let cleanChart = chart
    .replace(/&gt;/g, ">")
    .replace(/&lt;/g, "<")
    .replace(/&quot;/g, '"')
    .replace(/[fence]mermaid/g, "")
    .replace(/[fence]/g, "")
    .replace(/^mermaid\s*/i, "")
    .replace(/graph TD/g, "flowchart TD")
    .replace(/;/g, "")
    .trim();
  cleanChart = cleanChart.replace(/ -- (.*?) -->/g, ...);
  \<close>
\<close>

definition fence :: string where
  "fence = [CHR 0x60, CHR 0x60, CHR 0x60]"

definition sanitize :: "string \<Rightarrow> string" where
  "sanitize chart =
     (let c1 = replaceAll ''&gt;'' ''>'' chart;
          c2 = replaceAll ''&lt;'' ''<'' c1;
          c3 = replaceAll ''&quot;'' [CHR 0x22] c2;
          c4 = replaceAll (fence @ ''mermaid'') [] c3;
          c5 = replaceAll fence [] c4;
          c6 = stripMermaidKeyword c5;
          c7 = replaceAll ''graph TD'' ''flowchart TD'' c6;
          c8 = replaceAll '';'' [] c7;
          cleanChart = trim c8
      in requote cleanChart)"

text \<open>The effect of the component cleans and renders a chart only when
  \<^verbatim>\<open>!chart || chart.trim().length === 0\<close> fails.\<close>

definition isEmptyChart :: "string \<Rightarrow> bool" where
  "isEmptyChart chart \<longleftrightarrow> chart = [] \<or> length (trim chart) = 0"

text \<open>
  Predicates on a text, for stating when the cleanup leaves it alone:
  \<^verbatim>\<open>s.includes(pat)\<close> (named \<open>includes_str\<close>), and whether the pattern of the edge labels has a match in it.
\<close>

fun includes_str :: "string \<Rightarrow> string \<Rightarrow> bool" where
  "includes_str pat [] = (pat = [])"
| "includes_str pat (c # cs) = (prefix pat (c # cs) \<or> includes_str pat cs)"

fun hasEdgeLabel :: "string \<Rightarrow> bool" where
  "hasEdgeLabel [] = False"
| "hasEdgeLabel (c # cs) =
     ((prefix '' -- '' (c # cs) \<and> findLabel (drop 3 cs) \<noteq> None) \<or> hasEdgeLabel cs)"

section \<open>Zoom: properties\<close>

lemma zoomLevel_handleZoomIn [simp]:
  "zoomLevel (handleZoomIn st) = min (zoomLevel st + 1/4) 5"
  by (simp add: handleZoomIn_def)

lemma zoomLevel_handleZoomOut [simp]:
  "zoomLevel (handleZoomOut st) = max (zoomLevel st - 1/4) (1/2)"
  by (simp add: handleZoomOut_def)

lemma isZoomed_handleZoomIn [simp]: "isZoomed (handleZoomIn st) = isZoomed st"
  by (simp add: handleZoomIn_def)

lemma isZoomed_handleZoomOut [simp]: "isZoomed (handleZoomOut st) = isZoomed st"
  by (simp add: handleZoomOut_def)

lemma zoomLevel_funpow_In:
  "zoomLevel st \<le> 5 \<Longrightarrow>
   zoomLevel ((handleZoomIn ^^ n) st) = min (zoomLevel st + of_nat n / 4) 5"
proof (induction n)
  case 0
  then show ?case by simp
next
  case (Suc n)
  then show ?case by (simp add: min_def field_simps)
qed

lemma zoomLevel_funpow_Out:
  "1/2 \<le> zoomLevel st \<Longrightarrow>
   zoomLevel ((handleZoomOut ^^ n) st) = max (zoomLevel st - of_nat n / 4) (1/2)"
proof (induction n)
  case 0
  then show ?case by simp
next
  case (Suc n)
  then show ?case by (simp add: max_def field_simps)
qed

lemma zoomLevel_dispatch_range:
  "1/2 \<le> zoomLevel st \<and> zoomLevel st \<le> 5 \<Longrightarrow>
   1/2 \<le> zoomLevel (dispatch e st) \<and> zoomLevel (dispatch e st) \<le> 5"
  by (cases e)
     (auto simp: dispatch_def commit_def setIsZoomed_def handleResetZoom_def
                 min_def max_def)

lemma zoomLevel_run_range:
  "1/2 \<le> zoomLevel st \<and> zoomLevel st \<le> 5 \<Longrightarrow>
   1/2 \<le> zoomLevel (run es st) \<and> zoomLevel (run es st) \<le> 5"
proof (induction es arbitrary: st)
  case Nil
  then show ?case by simp
next
  case (Cons e es)
  from Cons.prems have "1/2 \<le> zoomLevel (dispatch e st) \<and> zoomLevel (dispatch e st) \<le> 5"
    by (rule zoomLevel_dispatch_range)
  then show ?case using Cons.IH by simp
qed

lemma dispatch_zooms_isZoomed: "zooms e \<Longrightarrow> isZoomed (dispatch e st) = isZoomed st"
  by (cases e)
     (auto simp: dispatch_def commit_def handleResetZoom_def)

lemma run_zooms_isZoomed:
  "\<forall>e\<in>set es. zooms e \<Longrightarrow> isZoomed (run es st) = isZoomed st"
  by (induction es arbitrary: st) (simp_all add: dispatch_zooms_isZoomed)

lemma dispatch_closes:
  "closes c \<Longrightarrow> isZoomed st \<Longrightarrow> dispatch c st = st\<lparr>isZoomed := False, zoomLevel := 1\<rparr>"
  by (cases c) (auto simp: dispatch_def commit_def setIsZoomed_def)

lemma dispatch_closed_level:
  "(\<not> isZoomed st \<longrightarrow> zoomLevel st = 1) \<Longrightarrow>
   (\<not> isZoomed (dispatch e st) \<longrightarrow> zoomLevel (dispatch e st) = 1)"
  by (cases e)
     (auto simp: dispatch_def commit_def setIsZoomed_def handleResetZoom_def
                 handleZoomIn_def handleZoomOut_def)

lemma run_closed_level:
  "(\<not> isZoomed st \<longrightarrow> zoomLevel st = 1) \<Longrightarrow>
   (\<not> isZoomed (run es st) \<longrightarrow> zoomLevel (run es st) = 1)"
proof (induction es arbitrary: st)
  case Nil
  then show ?case by simp
next
  case (Cons e es)
  have "\<not> isZoomed (dispatch e st) \<longrightarrow> zoomLevel (dispatch e st) = 1"
    using Cons.prems by (rule dispatch_closed_level)
  then show ?case using Cons.IH by simp
qed

text \<open>
  Every level the component reaches from its initial state is a multiple of 0.25 between
  0.5 and 5.0. On these values the arithmetic of doubles is exact, which is why the level
  can be a rational number here.
\<close>

lemma zoomLevel_dispatch_quarters:
  assumes "\<exists>k. zoomLevel st = of_nat k / 4 \<and> 2 \<le> k \<and> k \<le> 20"
  shows "\<exists>k. zoomLevel (dispatch e st) = of_nat k / 4 \<and> 2 \<le> k \<and> k \<le> 20"
proof -
  from assms obtain k where k: "zoomLevel st = of_nat k / 4" "2 \<le> k" "k \<le> 20" by blast
  have one: "\<exists>j. (1::rat) = of_nat j / 4 \<and> 2 \<le> j \<and> j \<le> 20"
    by (rule exI [of _ 4]) simp
  have up: "\<exists>j. min (zoomLevel st + 1/4) 5 = of_nat j / 4 \<and> 2 \<le> j \<and> j \<le> 20"
  proof (cases "k = 20")
    case True
    with k show ?thesis by (intro exI [of _ 20]) (simp add: min_def)
  next
    case False
    with k have "min (zoomLevel st + 1/4) 5 = of_nat (Suc k) / 4"
      by (simp add: min_def field_simps)
    with k False show ?thesis by (intro exI [of _ "Suc k"]) simp
  qed
  have down: "\<exists>j. max (zoomLevel st - 1/4) (1/2) = of_nat j / 4 \<and> 2 \<le> j \<and> j \<le> 20"
  proof (cases "k = 2")
    case True
    with k show ?thesis by (intro exI [of _ 2]) (simp add: max_def)
  next
    case False
    with k have "max (zoomLevel st - 1/4) (1/2) = of_nat (k - 1) / 4"
      by (simp add: max_def field_simps of_nat_diff)
    moreover from k False have "2 \<le> k - 1 \<and> k - 1 \<le> 20" by arith
    ultimately show ?thesis by blast
  qed
  show ?thesis
    using assms one up down
    by (cases e)
       (auto simp: dispatch_def commit_def setIsZoomed_def handleResetZoom_def
          handleZoomIn_def handleZoomOut_def)
qed

lemma zoomLevel_run_quarters_from:
  "\<exists>k. zoomLevel st = of_nat k / 4 \<and> 2 \<le> k \<and> k \<le> 20 \<Longrightarrow>
   \<exists>k. zoomLevel (run es st) = of_nat k / 4 \<and> 2 \<le> k \<and> k \<le> 20"
proof (induction es arbitrary: st)
  case Nil
  then show ?case by simp
next
  case (Cons e es)
  from Cons.prems have "\<exists>k. zoomLevel (dispatch e st) = of_nat k / 4 \<and> 2 \<le> k \<and> k \<le> 20"
    by (rule zoomLevel_dispatch_quarters)
  then show ?case using Cons.IH by simp
qed

lemma zoomLevel_run_quarters:
  "\<exists>k. zoomLevel (run es initialZoom) = of_nat k / 4 \<and> 2 \<le> k \<and> k \<le> 20"
proof (rule zoomLevel_run_quarters_from)
  show "\<exists>k. zoomLevel initialZoom = of_nat k / 4 \<and> 2 \<le> k \<and> k \<le> 20"
    by (rule exI [of _ 4]) (simp add: initialZoom_def)
qed

text \<open>
  C6. Zoom clamp. An increment adds 0.25 and stops at 5, a decrement subtracts 0.25 and
  stops at 0.5. Starting from 1.0, no number of increments exceeds 5.0 and no number of
  decrements goes below 0.5; whatever events the component receives from its initial
  state, the level stays in [0.5, 5.0]; and starting from 0.5 the level is 4.75 after
  exactly 17 increments, and after no other number of them.
\<close>

theorem zoom_clamp:
  "zoomLevel (handleZoomIn st) = (if zoomLevel st + 1/4 \<le> 5 then zoomLevel st + 1/4 else 5)
   \<and> zoomLevel (handleZoomOut st)
       = (if 1/2 \<le> zoomLevel st - 1/4 then zoomLevel st - 1/4 else 1/2)
   \<and> zoomLevel ((handleZoomIn ^^ n) (st\<lparr>zoomLevel := 1\<rparr>)) \<le> 5
   \<and> 1/2 \<le> zoomLevel ((handleZoomOut ^^ n) (st\<lparr>zoomLevel := 1\<rparr>))
   \<and> 1/2 \<le> zoomLevel (run es initialZoom) \<and> zoomLevel (run es initialZoom) \<le> 5
   \<and> (zoomLevel ((handleZoomIn ^^ n) (st\<lparr>zoomLevel := 1/2\<rparr>)) = 19/4 \<longleftrightarrow> n = 17)"
proof -
  have step_in: "zoomLevel (handleZoomIn st)
      = (if zoomLevel st + 1/4 \<le> 5 then zoomLevel st + 1/4 else 5)"
    by (simp add: min_def)
  have step_out: "zoomLevel (handleZoomOut st)
      = (if 1/2 \<le> zoomLevel st - 1/4 then zoomLevel st - 1/4 else 1/2)"
    by (simp add: max_def)
  have up: "zoomLevel ((handleZoomIn ^^ n) (st\<lparr>zoomLevel := 1\<rparr>)) \<le> 5"
    by (simp add: zoomLevel_funpow_In)
  have down: "1/2 \<le> zoomLevel ((handleZoomOut ^^ n) (st\<lparr>zoomLevel := 1\<rparr>))"
    by (simp add: zoomLevel_funpow_Out)
  have range: "1/2 \<le> zoomLevel (run es initialZoom) \<and> zoomLevel (run es initialZoom) \<le> 5"
    by (rule zoomLevel_run_range) (simp add: initialZoom_def)
  have "zoomLevel ((handleZoomIn ^^ n) (st\<lparr>zoomLevel := 1/2\<rparr>))
      = min (1/2 + of_nat n / 4) 5"
    by (simp add: zoomLevel_funpow_In)
  also have "\<dots> = 19/4 \<longleftrightarrow> (of_nat n :: rat) = 17"
    by (auto simp: min_def field_simps)
  also have "\<dots> \<longleftrightarrow> n = 17"
    using of_nat_eq_iff [of n 17, where 'a = rat] by simp
  finally have exact: "zoomLevel ((handleZoomIn ^^ n) (st\<lparr>zoomLevel := 1/2\<rparr>)) = 19/4
      \<longleftrightarrow> n = 17" .
  from step_in step_out up down range exact show ?thesis by blast
qed

text \<open>
  C7. Zoom reset invariant. With the overlay open at any zoom level, after any sequence
  of zoom increments, decrements, resets and wheel gestures, every event that closes the
  overlay (the close control, a click on the backdrop, the cancel key) leaves
  \<open>isZoomed\<close> false and \<open>zoomLevel\<close> at 1.0 once the render it causes has run its
  effect.
\<close>

theorem zoom_reset_on_close:
  assumes "isZoomed st" and "\<forall>e\<in>set es. zooms e" and "closes c"
  shows "\<not> isZoomed (dispatch c (run es st)) \<and> zoomLevel (dispatch c (run es st)) = 1"
proof -
  have "isZoomed (run es st)"
    using assms(1,2) by (simp add: run_zooms_isZoomed)
  with assms(3) have "dispatch c (run es st) = (run es st)\<lparr>isZoomed := False, zoomLevel := 1\<rparr>"
    by (rule dispatch_closes)
  then show ?thesis by simp
qed

theorem zoom_reset_on_close_witness:
  "isZoomed \<lparr>isZoomed = True, zoomLevel = 1\<rparr>
   \<and> list_all zooms [ZoomInButton, ZoomInButton, ZoomOutButton, Wheel True True]
   \<and> closes (KeyDown True)
   \<and> run [ZoomInButton, ZoomInButton, ZoomOutButton, Wheel True True]
        \<lparr>isZoomed = True, zoomLevel = 1\<rparr> = \<lparr>isZoomed = True, zoomLevel = 3/2\<rparr>
   \<and> \<not> isZoomed (dispatch (KeyDown True)
        (run [ZoomInButton, ZoomInButton, ZoomOutButton, Wheel True True]
          \<lparr>isZoomed = True, zoomLevel = 1\<rparr>))
   \<and> zoomLevel (dispatch (KeyDown True)
        (run [ZoomInButton, ZoomInButton, ZoomOutButton, Wheel True True]
          \<lparr>isZoomed = True, zoomLevel = 1\<rparr>)) = 1"
proof -
  have a: "isZoomed \<lparr>isZoomed = True, zoomLevel = 1\<rparr>" by simp
  have b: "\<forall>e\<in>set [ZoomInButton, ZoomInButton, ZoomOutButton, Wheel True True]. zooms e"
    by simp
  have c: "closes (KeyDown True)" by simp
  have d: "run [ZoomInButton, ZoomInButton, ZoomOutButton, Wheel True True]
        \<lparr>isZoomed = True, zoomLevel = 1\<rparr> = \<lparr>isZoomed = True, zoomLevel = 3/2\<rparr>"
    by (simp add: dispatch_def commit_def handleZoomIn_def handleZoomOut_def)
  have b': "list_all zooms [ZoomInButton, ZoomInButton, ZoomOutButton, Wheel True True]"
    by simp
  from zoom_reset_on_close [OF a b c] a b' c d show ?thesis by blast
qed

section \<open>Command palette: properties\<close>

lemma toLowerCase_char_idem: "toLowerCase_char (toLowerCase_char c) = toLowerCase_char c"
  by (simp add: toLowerCase_char_def Let_def)

lemma toLowerCase_idem: "toLowerCase (toLowerCase s) = toLowerCase s"
  by (simp add: toLowerCase_def toLowerCase_char_idem)

lemma toLowerCase_char_slash: "toLowerCase_char c = CHR ''/'' \<longleftrightarrow> c = CHR ''/''"
proof
  assume low: "toLowerCase_char c = CHR ''/''"
  show "c = CHR ''/''"
  proof (rule ccontr)
    assume other: "c \<noteq> CHR ''/''"
    let ?n = "of_char c :: nat"
    from low other
    have capital: "(65 \<le> ?n \<and> ?n \<le> 90) \<or> (192 \<le> ?n \<and> ?n \<le> 222 \<and> ?n \<noteq> 215)"
      and shifted: "char_of (?n + 32) = CHR ''/''"
      by (auto simp: toLowerCase_char_def Let_def split: if_splits)
    from shifted have "(of_char (char_of (?n + 32)) :: nat) = of_char CHR ''/''"
      by simp
    then have "(?n + 32) mod 256 = 47" by simp
    with capital show False by auto
  qed
next
  assume "c = CHR ''/''"
  then show "toLowerCase_char c = CHR ''/''"
    by (simp add: toLowerCase_char_def)
qed

lemma prefix_slash_toLowerCase: "prefix ''/'' (toLowerCase s) = prefix ''/'' s"
  by (cases s) (auto simp: toLowerCase_def toLowerCase_char_slash eq_commute [of "CHR ''/''"])

text \<open>
  C8. Command filter. Whatever the state of the page, the input \<^verbatim>\<open>/sec\<close> leaves exactly
  the one suggestion \<^verbatim>\<open>/security\<close> and shows the panel; the input \<^verbatim>\<open>/zzz\<close> leaves no
  suggestion and hides the panel; and every input that does not start with \<^verbatim>\<open>/\<close>
  hides the panel.
\<close>

theorem command_filter:
  "map cmd (filteredCmds (handleInputChange ''/sec'' st)) = [''/security'']
   \<and> showSuggestions (handleInputChange ''/sec'' st)
   \<and> filteredCmds (handleInputChange ''/zzz'' st) = []
   \<and> \<not> showSuggestions (handleInputChange ''/zzz'' st)
   \<and> (\<not> prefix ''/'' val \<longrightarrow> \<not> showSuggestions (handleInputChange val st))"
  by (simp add: handleInputChange_def COMMANDS_def toLowerCase_def toLowerCase_char_def)

theorem command_filter_witness:
  "\<not> prefix ''/'' ''explain /test''
   \<and> \<not> showSuggestions (handleInputChange ''explain /test'' (initialHome\<lparr>showSuggestions := True\<rparr>))
   \<and> chatInput (handleInputChange ''explain /test'' (initialHome\<lparr>showSuggestions := True\<rparr>))
       = ''explain /test''"
proof -
  have start: "\<not> prefix ''/'' ''explain /test''" by simp
  have "\<not> showSuggestions (handleInputChange ''explain /test'' (initialHome\<lparr>showSuggestions := True\<rparr>))"
    using command_filter [of "initialHome\<lparr>showSuggestions := True\<rparr>" "''explain /test''"] start
    by blast
  moreover have "chatInput (handleInputChange ''explain /test'' (initialHome\<lparr>showSuggestions := True\<rparr>))
       = ''explain /test''"
    by (simp add: handleInputChange_def)
  ultimately show ?thesis using start by blast
qed

text \<open>
  C10. The command filter ignores the letter case of the input. For every input \<open>s\<close>
  that starts with \<^verbatim>\<open>/\<close>, the handler leaves the suggestions whose command starts with
  the lowercased input, and these are the suggestions (and the visibility of the panel)
  that the lowercased input itself gives.
\<close>

theorem command_filter_lowercases:
  assumes "prefix ''/'' s"
  shows "filteredCmds (handleInputChange s st)
           = filter (\<lambda>c. prefix (toLowerCase s) (cmd c)) COMMANDS
         \<and> filteredCmds (handleInputChange s st)
           = filteredCmds (handleInputChange (toLowerCase s) st)
         \<and> showSuggestions (handleInputChange s st)
           = showSuggestions (handleInputChange (toLowerCase s) st)"
proof -
  from assms have low: "prefix ''/'' (toLowerCase s)"
    by (simp add: prefix_slash_toLowerCase)
  from assms have here: "filteredCmds (handleInputChange s st)
      = filter (\<lambda>c. prefix (toLowerCase s) (cmd c)) COMMANDS"
    and shown: "showSuggestions (handleInputChange s st)
      = (filter (\<lambda>c. prefix (toLowerCase s) (cmd c)) COMMANDS \<noteq> [])"
    by (simp_all add: handleInputChange_def Let_def)
  from low have there: "filteredCmds (handleInputChange (toLowerCase s) st)
      = filter (\<lambda>c. prefix (toLowerCase s) (cmd c)) COMMANDS"
    and shown': "showSuggestions (handleInputChange (toLowerCase s) st)
      = (filter (\<lambda>c. prefix (toLowerCase s) (cmd c)) COMMANDS \<noteq> [])"
    by (simp_all add: handleInputChange_def Let_def toLowerCase_idem)
  from here there shown shown' show ?thesis by simp
qed

theorem command_filter_lowercases_witness:
  "prefix ''/'' ''/SEC''
   \<and> toLowerCase ''/SEC'' = ''/sec''
   \<and> map cmd (filteredCmds (handleInputChange ''/SEC'' initialHome)) = [''/security'']
   \<and> filteredCmds (handleInputChange ''/SEC'' initialHome)
       = filteredCmds (handleInputChange ''/sec'' initialHome)"
proof -
  have start: "prefix ''/'' ''/SEC''" by simp
  have low: "toLowerCase ''/SEC'' = ''/sec''"
    by (simp add: toLowerCase_def toLowerCase_char_def char_of_eq_iff)
  have list: "map cmd (filter (\<lambda>c. prefix ''/sec'' (cmd c)) COMMANDS) = [''/security'']"
    by (simp add: COMMANDS_def)
  note inst = command_filter_lowercases [OF start, of initialHome, unfolded low]
  from inst have a: "filteredCmds (handleInputChange ''/SEC'' initialHome)
      = filter (\<lambda>c. prefix ''/sec'' (cmd c)) COMMANDS"
    by (rule conjunct1)
  from inst have b: "filteredCmds (handleInputChange ''/SEC'' initialHome)
      = filteredCmds (handleInputChange ''/sec'' initialHome)"
    by blast
  from a list have "map cmd (filteredCmds (handleInputChange ''/SEC'' initialHome))
      = [''/security'']"
    by (simp only:)
  with start low b show ?thesis by blast
qed

section \<open>Sessions and chat turns: properties\<close>

lemmas example_defs = exampleHome_def lastHome_def exampleSession_def initialHome_def
  exampleResponse_def

lemma findSession_map_same:
  assumes "\<And>s. sid (f s) = sid s"
  shows "findSession i (map (\<lambda>s. if sid s = i then f s else s) ss) = map_option f (findSession i ss)"
  using assms by (induction ss) (auto simp: findSession_def)

lemma findSession_map_other:
  assumes "\<And>s. sid (f s) = sid s" and "j \<noteq> i"
  shows "findSession j (map (\<lambda>s. if sid s = i then f s else s) ss) = findSession j ss"
  using assms by (induction ss) (auto simp: findSession_def)

lemma handleChat_begin_returns:
  "chatInput r \<noteq> [] \<Longrightarrow> \<exists>p st1. handleChat_begin now1 now2 r = Some (p, st1)"
  by (simp add: handleChat_begin_def Let_def)

lemma handleChat_begin_Some:
  assumes "handleChat_begin now1 now2 r = Some (p, st1)"
  shows "sessions st1 = updatedWithUser p"
    and "chat_history st1 = Some (updatedWithUser p)"
    and "userMsg p = \<lparr>role = user, content = chatInput r, context_opt = None, timestamp = now2\<rparr>"
    and "currentSessionId p = turnId now1 r"
    and "chatInput r \<noteq> []"
    and "updatedWithUser p =
           map (\<lambda>s. if sid s = turnId now1 r
                     then s\<lparr>title := (if length (messages s) = 0
                                       then take 30 (chatInput r) @ ''...'' else title s),
                            messages := messages s @ [userMsg p],
                            repoUrl := (if pageRepoUrl r \<noteq> [] then pageRepoUrl r
                                        else repoUrl s)\<rparr>
                     else s)
               (turnSessions now1 r)"
  using assms
  by (auto simp: handleChat_begin_def Let_def saveSessions_def turnId_def turnSessions_def
           split: if_splits option.splits)

lemma sessions_settle:
  "sessions (handleChat_settle p out now st) =
     map (\<lambda>s. if sid s = currentSessionId p then s\<lparr>messages := messages s @ [reply out now]\<rparr> else s)
       (updatedWithUser p)"
  by (simp add: handleChat_settle_def Let_def saveSessions_def)

lemma other_settle:
  "activeSessionId (handleChat_settle p out now st) = activeSessionId st"
  "chat_history (handleChat_settle p out now st) = Some (sessions (handleChat_settle p out now st))"
  "chatLoading (handleChat_settle p out now st) = False"
  by (simp_all add: handleChat_settle_def Let_def saveSessions_def)


lemma findSession_filter_other:
  "a \<noteq> x \<Longrightarrow> findSession a (filter (\<lambda>s. sid s \<noteq> x) ss) = findSession a ss"
  by (induction ss) (auto simp: findSession_def)

lemma hasActive_createNewSession: "hasActive (createNewSession r now st)"
  by (simp add: hasActive_def createNewSession_def loadSession_def saveSessions_def
      findSession_def Let_def)

lemma deleteSession_active:
  "activeSessionId r = Some x \<Longrightarrow>
   deleteSession True x now r =
     (case filter (\<lambda>s. sid s \<noteq> x) (sessions r) of
        s0 # rest \<Rightarrow> loadSession s0 (saveSessions (s0 # rest) r)
      | [] \<Rightarrow> createNewSession r now (saveSessions [] r))"
  by (simp add: deleteSession_def Let_def split: list.splits)

lemma hasActive_deleteSession:
  assumes "hasActive r"
  shows "hasActive (deleteSession confirmed x now r)"
proof (cases confirmed)
  case False
  with assms show ?thesis by (simp add: deleteSession_def)
next
  case True
  from assms obtain a where a: "activeSessionId r = Some a"
    and found: "findSession a (sessions r) \<noteq> None"
    by (auto simp: hasActive_def split: option.splits)
  show ?thesis
  proof (cases "a = x")
    case same: True
    show ?thesis
    proof (cases "filter (\<lambda>s. sid s \<noteq> x) (sessions r)")
      case Nil
      with True a same show ?thesis
        by (simp add: deleteSession_active hasActive_createNewSession)
    next
      case (Cons s0 rest)
      with True a same show ?thesis
        by (simp add: deleteSession_active hasActive_def loadSession_def saveSessions_def
            findSession_def)
    qed
  next
    case False
    with True a found show ?thesis
      by (simp add: deleteSession_def Let_def hasActive_def saveSessions_def
          findSession_filter_other)
  qed
qed

lemma hasActive_loadHistory: "hasActive (loadHistory saved now r)"
proof (cases saved)
  case (History parsed)
  then show ?thesis
    by (cases parsed)
       (simp_all add: hasActive_createNewSession, simp add: hasActive_def findSession_def)
qed (simp_all add: hasActive_createNewSession)

lemma findSession_nth: "k < length ss \<Longrightarrow> findSession (sid (ss ! k)) ss \<noteq> None"
proof -
  assume "k < length ss"
  then have "ss ! k \<in> set ss" by (rule nth_mem)
  then have "\<exists>x. x \<in> set ss \<and> sid x = sid (ss ! k)" by blast
  then show ?thesis by (simp add: findSession_def find_None_iff)
qed

lemma hasActive_loadSession_nth:
  "k < length (sessions r) \<Longrightarrow> hasActive (loadSession (sessions r ! k) r)"
  using findSession_nth [of k "sessions r"] by (simp add: hasActive_def loadSession_def)

lemma hasActive_storeStep: "hasActive r \<Longrightarrow> hasActive (storeStep e r)"
  by (cases e)
     (simp_all add: hasActive_createNewSession hasActive_deleteSession
        hasActive_loadSession_nth)

lemma hasActive_storeRun: "hasActive r \<Longrightarrow> hasActive (storeRun es r)"
  by (induction es arbitrary: r) (simp_all add: hasActive_storeStep)

lemma begin_the:
  "chatInput r \<noteq> [] \<Longrightarrow>
   handleChat_begin now1 now2 r
     = Some (fst (the (handleChat_begin now1 now2 r)), snd (the (handleChat_begin now1 now2 r)))"
  using handleChat_begin_returns [of r now1 now2] by auto

text \<open>
  C2. Stale-response filing. Let a turn start in state \<open>r\<close> and let its call end, with
  an answer or with a failure, when the page is in any state \<open>st2\<close> (for instance after
  the user has switched to another session). The id the turn captured is the one that
  was active in \<open>r\<close> (or the fresh one). The continuation appends its message to the
  session of that id and to no other: the collection it saves is the collection saved at
  the start of the turn with the message added to that session, every session of another
  id is as it was, and the active session of \<open>st2\<close> stays active.
\<close>

theorem stale_response_filing:
  assumes "handleChat_begin now1 now2 r = Some (p, st1)"
  shows "currentSessionId p = turnId now1 r
    \<and> sessions (handleChat_settle p out now3 st2)
        = map (\<lambda>s. if sid s = turnId now1 r
                    then s\<lparr>messages := messages s @ [reply out now3]\<rparr> else s)
              (sessions st1)
    \<and> findSession (turnId now1 r) (sessions (handleChat_settle p out now3 st2))
        = map_option (\<lambda>x. x\<lparr>messages := messages x @ [reply out now3]\<rparr>)
            (findSession (turnId now1 r) (sessions st1))
    \<and> (\<forall>y. y \<noteq> turnId now1 r \<longrightarrow>
          findSession y (sessions (handleChat_settle p out now3 st2))
            = findSession y (sessions st1))
    \<and> activeSessionId (handleChat_settle p out now3 st2) = activeSessionId st2"
proof -
  note b = handleChat_begin_Some [OF assms]
  have list: "sessions (handleChat_settle p out now3 st2)
        = map (\<lambda>s. if sid s = turnId now1 r
                    then s\<lparr>messages := messages s @ [reply out now3]\<rparr> else s)
              (sessions st1)"
    by (simp add: sessions_settle b)
  have same: "findSession (turnId now1 r) (sessions (handleChat_settle p out now3 st2))
        = map_option (\<lambda>x. x\<lparr>messages := messages x @ [reply out now3]\<rparr>)
            (findSession (turnId now1 r) (sessions st1))"
    unfolding list by (rule findSession_map_same) simp
  have other: "\<forall>y. y \<noteq> turnId now1 r \<longrightarrow>
          findSession y (sessions (handleChat_settle p out now3 st2))
            = findSession y (sessions st1)"
    unfolding list by (simp add: findSession_map_other)
  from b(4) list same other other_settle(1) show ?thesis by blast
qed

theorem stale_response_filing_witness:
  "map messages
     (sessions (handleChat_settle (fst (the (handleChat_begin 5 6 (exampleHome\<lparr>chatInput := ''hi''\<rparr>))))
        (Resolved exampleResponse) 7
        (loadSession (exampleSession ''B'')
           (snd (the (handleChat_begin 5 6 (exampleHome\<lparr>chatInput := ''hi''\<rparr>)))))))
    = [[\<lparr>role = user, content = ''hi'', context_opt = None, timestamp = 6\<rparr>,
        \<lparr>role = ai, content = ''ok'', context_opt = None, timestamp = 7\<rparr>], [], []]
   \<and> activeSessionId
     (handleChat_settle (fst (the (handleChat_begin 5 6 (exampleHome\<lparr>chatInput := ''hi''\<rparr>))))
        (Resolved exampleResponse) 7
        (loadSession (exampleSession ''B'')
           (snd (the (handleChat_begin 5 6 (exampleHome\<lparr>chatInput := ''hi''\<rparr>))))))
    = Some ''B''"
proof -
  let ?r = "exampleHome\<lparr>chatInput := ''hi''\<rparr>"
  let ?p = "fst (the (handleChat_begin 5 6 ?r))"
  let ?st1 = "snd (the (handleChat_begin 5 6 ?r))"
  have beg: "handleChat_begin 5 6 ?r = Some (?p, ?st1)"
    by (rule begin_the) simp
  have tid: "turnId 5 ?r = ''A''"
    by (simp add: turnId_def example_defs)
  have st1: "sessions ?st1 =
      [(exampleSession ''A'')\<lparr>title := ''hi...'',
         messages := [\<lparr>role = user, content = ''hi'', context_opt = None, timestamp = 6\<rparr>]\<rparr>,
       exampleSession ''B'', exampleSession ''C'']"
    by (simp add: handleChat_begin_def Let_def saveSessions_def example_defs)
  note inst = stale_response_filing [OF beg, of "Resolved exampleResponse" 7
      "loadSession (exampleSession ''B'') ?st1", unfolded tid]
  from inst have "sessions (handleChat_settle ?p (Resolved exampleResponse) 7
        (loadSession (exampleSession ''B'') ?st1))
      = map (\<lambda>s. if sid s = ''A''
                  then s\<lparr>messages := messages s @ [reply (Resolved exampleResponse) 7]\<rparr> else s)
            (sessions ?st1)"
    by blast
  then have a: "map messages (sessions (handleChat_settle ?p (Resolved exampleResponse) 7
        (loadSession (exampleSession ''B'') ?st1)))
      = [[\<lparr>role = user, content = ''hi'', context_opt = None, timestamp = 6\<rparr>,
        \<lparr>role = ai, content = ''ok'', context_opt = None, timestamp = 7\<rparr>], [], []]"
    by (simp only: st1) (simp add: exampleSession_def exampleResponse_def)
  from inst have "activeSessionId (handleChat_settle ?p (Resolved exampleResponse) 7
        (loadSession (exampleSession ''B'') ?st1))
      = activeSessionId (loadSession (exampleSession ''B'') ?st1)"
    by blast
  then have b: "activeSessionId (handleChat_settle ?p (Resolved exampleResponse) 7
        (loadSession (exampleSession ''B'') ?st1)) = Some ''B''"
    by (simp add: loadSession_def exampleSession_def)
  from a b show ?thesis by blast
qed

text \<open>
  C3. Deleting the active session. With \<open>x\<close> active, a confirmed deletion of \<open>x\<close>
  activates the head of the remaining collection, which becomes the collection; when
  nothing remains, a fresh session without messages is created and becomes active.
  A deletion, confirmed or not, of any session keeps the store with an active session;
  and after the load on mount, whatever was stored, every sequence of sidebar events
  (new, select, delete) leaves an active session.
\<close>

theorem delete_active_session:
  "(activeSessionId r = Some x \<longrightarrow>
      (case filter (\<lambda>s. sid s \<noteq> x) (sessions r) of
         s0 # rest \<Rightarrow>
           activeSessionId (deleteSession True x now r) = Some (sid s0)
           \<and> sessions (deleteSession True x now r) = s0 # rest
       | [] \<Rightarrow>
           activeSessionId (deleteSession True x now r) = Some (sid (newChat now))
           \<and> findSession (sid (newChat now)) (sessions (deleteSession True x now r))
               = Some (newChat now)
           \<and> messages (newChat now) = []))
   \<and> (hasActive r \<longrightarrow> hasActive (deleteSession confirmed x now r))
   \<and> hasActive (storeRun es (loadHistory saved now0 initialHome))"
proof -
  have head: "activeSessionId r = Some x \<longrightarrow>
      (case filter (\<lambda>s. sid s \<noteq> x) (sessions r) of
         s0 # rest \<Rightarrow>
           activeSessionId (deleteSession True x now r) = Some (sid s0)
           \<and> sessions (deleteSession True x now r) = s0 # rest
       | [] \<Rightarrow>
           activeSessionId (deleteSession True x now r) = Some (sid (newChat now))
           \<and> findSession (sid (newChat now)) (sessions (deleteSession True x now r))
               = Some (newChat now)
           \<and> messages (newChat now) = [])"
    by (auto simp: deleteSession_active loadSession_def saveSessions_def createNewSession_def
        findSession_def newChat_def Let_def split: list.splits)
  have keep: "hasActive r \<longrightarrow> hasActive (deleteSession confirmed x now r)"
    by (simp add: hasActive_deleteSession)
  have always: "hasActive (storeRun es (loadHistory saved now0 initialHome))"
    by (rule hasActive_storeRun) (rule hasActive_loadHistory)
  from head keep always show ?thesis by blast
qed

theorem delete_active_session_witness:
  "activeSessionId exampleHome = Some ''A''
   \<and> activeSessionId (deleteSession True ''A'' 7 exampleHome) = Some ''B''
   \<and> map sid (sessions (deleteSession True ''A'' 7 exampleHome)) = [''B'', ''C'']
   \<and> hasActive exampleHome
   \<and> hasActive (deleteSession True ''A'' 7 exampleHome)
   \<and> activeSessionId lastHome = Some ''A''
   \<and> activeSessionId (deleteSession True ''A'' 7 lastHome) = Some ''sess_7''
   \<and> findSession ''sess_7'' (sessions (deleteSession True ''A'' 7 lastHome)) = Some (newChat 7)"
proof -
  have act: "activeSessionId exampleHome = Some ''A''"
    and has: "hasActive exampleHome"
    by (simp_all add: example_defs hasActive_def findSession_def)
  have rest: "filter (\<lambda>s. sid s \<noteq> ''A'') (sessions exampleHome)
      = [exampleSession ''B'', exampleSession ''C'']"
    by (simp add: example_defs)
  note inst = delete_active_session [of exampleHome "''A''" 7 True "[]" NoItem 0]
  from inst act have "case filter (\<lambda>s. sid s \<noteq> ''A'') (sessions exampleHome) of
         s0 # rest \<Rightarrow>
           activeSessionId (deleteSession True ''A'' 7 exampleHome) = Some (sid s0)
           \<and> sessions (deleteSession True ''A'' 7 exampleHome) = s0 # rest
       | [] \<Rightarrow>
           activeSessionId (deleteSession True ''A'' 7 exampleHome) = Some (sid (newChat 7))
           \<and> findSession (sid (newChat 7)) (sessions (deleteSession True ''A'' 7 exampleHome))
               = Some (newChat 7)
           \<and> messages (newChat 7) = []"
    by blast
  then have head: "activeSessionId (deleteSession True ''A'' 7 exampleHome) = Some ''B''
      \<and> map sid (sessions (deleteSession True ''A'' 7 exampleHome)) = [''B'', ''C'']"
    by (simp add: rest exampleSession_def)
  from inst has have kept: "hasActive (deleteSession True ''A'' 7 exampleHome)"
    by blast
  have act1: "activeSessionId lastHome = Some ''A''"
    by (simp add: example_defs)
  have rest1: "filter (\<lambda>s. sid s \<noteq> ''A'') (sessions lastHome) = []"
    by (simp add: example_defs)
  have seven: "sid (newChat 7) = ''sess_7''"
    by (simp add: newChat_def toString.simps char_of_eq_iff)
  note inst1 = delete_active_session [of lastHome "''A''" 7 True "[]" NoItem 0]
  from inst1 act1 have "case filter (\<lambda>s. sid s \<noteq> ''A'') (sessions lastHome) of
         s0 # rest \<Rightarrow>
           activeSessionId (deleteSession True ''A'' 7 lastHome) = Some (sid s0)
           \<and> sessions (deleteSession True ''A'' 7 lastHome) = s0 # rest
       | [] \<Rightarrow>
           activeSessionId (deleteSession True ''A'' 7 lastHome) = Some (sid (newChat 7))
           \<and> findSession (sid (newChat 7)) (sessions (deleteSession True ''A'' 7 lastHome))
               = Some (newChat 7)
           \<and> messages (newChat 7) = []"
    by blast
  then have fresh: "activeSessionId (deleteSession True ''A'' 7 lastHome) = Some ''sess_7''
      \<and> findSession ''sess_7'' (sessions (deleteSession True ''A'' 7 lastHome)) = Some (newChat 7)"
    by (simp add: rest1 seven)
  from act has head kept act1 fresh show ?thesis by blast
qed

text \<open>
  Two remarks on the last case. The handler that creates the fresh session reads the
  collection of the render in which the deletion was requested, so the collection it
  saves still holds the deleted session, behind the fresh one. The superseded draft of
  the page creates no session in this case and leaves no session active.
\<close>

lemma deleteSession_last_keeps_deleted:
  "sessions (deleteSession True ''A'' 7 lastHome) = [newChat 7, exampleSession ''A'']
   \<and> chat_history (deleteSession True ''A'' 7 lastHome) = Some [newChat 7, exampleSession ''A'']"
  by (simp add: deleteSession_def createNewSession_def loadSession_def saveSessions_def
      Let_def example_defs)

lemma deleteSession_draft_last:
  "activeSessionId (deleteSession_draft True ''A'' lastHome) = None
   \<and> sessions (deleteSession_draft True ''A'' lastHome) = []"
  by (simp add: deleteSession_draft_def saveSessions_def Let_def example_defs)









text \<open>The superseded draft of the page appends nothing when the call fails.\<close>

lemma handleChat_settle_draft_Rejected:
  "sessions (handleChat_settle_draft p Rejected now st) = sessions st"
  by simp

text \<open>
  C5 (amended). Title. A turn with a non-empty input succeeds in its first half; if the
  turn's session had no message, its title becomes the first 30 characters of the input
  followed by \<^verbatim>\<open>...\<close>, also when the input has fewer than 30 characters; otherwise
  the title is unchanged. In both cases the session then holds the user's message, so
  later turns leave the title unchanged.
\<close>

theorem title_auto_set:
  assumes "chatInput r \<noteq> []"
    and "findSession (turnId now1 r) (turnSessions now1 r) = Some s"
  shows "\<exists>p st1 s1. handleChat_begin now1 now2 r = Some (p, st1)
      \<and> findSession (turnId now1 r) (sessions st1) = Some s1
      \<and> title s1 = (if messages s = [] then take 30 (chatInput r) @ ''...'' else title s)
      \<and> messages s1 = messages s @ [userMsg p]"
proof -
  from assms(1) obtain p st1 where beg: "handleChat_begin now1 now2 r = Some (p, st1)"
    using handleChat_begin_returns by blast
  note b = handleChat_begin_Some [OF beg]
  have "findSession (turnId now1 r) (sessions st1)
      = map_option (\<lambda>s. s\<lparr>title := (if length (messages s) = 0
                                       then take 30 (chatInput r) @ ''...'' else title s),
                            messages := messages s @ [userMsg p],
                            repoUrl := (if pageRepoUrl r \<noteq> [] then pageRepoUrl r
                                        else repoUrl s)\<rparr>)
          (findSession (turnId now1 r) (turnSessions now1 r))"
    unfolding b(1) b(6) by (rule findSession_map_same) simp
  with assms(2) beg show ?thesis by simp
qed

theorem title_auto_set_witness:
  "map_option (map title \<circ> sessions \<circ> snd)
     (handleChat_begin 5 6 (lastHome\<lparr>chatInput := ''Explain this function please''\<rparr>))
   = Some [''Explain this function please...'']"
proof -
  let ?r = "lastHome\<lparr>chatInput := ''Explain this function please''\<rparr>"
  have tid: "turnId 5 ?r = ''A''"
    by (simp add: turnId_def example_defs)
  have ne: "chatInput ?r \<noteq> []" by simp
  have found: "findSession (turnId 5 ?r) (turnSessions 5 ?r) = Some (exampleSession ''A'')"
    by (simp add: tid) (simp add: turnSessions_def findSession_def example_defs)
  from title_auto_set [OF ne found, of 6, unfolded tid]
  obtain p st1 s1 where beg: "handleChat_begin 5 6 ?r = Some (p, st1)"
    and s1: "findSession ''A'' (sessions st1) = Some s1"
    and t: "title s1 = (if messages (exampleSession ''A'') = []
         then take 30 (chatInput ?r) @ ''...'' else title (exampleSession ''A''))"
    by blast
  from beg have one: "map sid (sessions st1) = [''A'']"
    by (auto simp: handleChat_begin_def Let_def saveSessions_def example_defs)
  from one s1 have "sessions st1 = [s1]"
    by (cases "sessions st1") (auto simp: findSession_def split: if_splits)
  with t have "map title (sessions st1) = [''Explain this function please...'']"
    by (simp add: exampleSession_def)
  with beg show ?thesis by simp
qed

text \<open>
  The example of the claim as it was stated: the input \<^verbatim>\<open>Explain this function please\<close>
  has 28 characters, so nothing is cut, and the title is not
  \<^verbatim>\<open>Explain this function pleas...\<close>.
\<close>

theorem title_example_counterexample:
  "map_option (map title \<circ> sessions \<circ> snd)
     (handleChat_begin 5 6 (lastHome\<lparr>chatInput := ''Explain this function please''\<rparr>))
   \<noteq> Some [''Explain this function pleas...'']"
  by (simp add: handleChat_begin_def Let_def saveSessions_def example_defs)

section \<open>Sanitizer: properties\<close>

lemmas sanitize_defs = sanitize_def trim_def isSpace_def isLineTerminator_def safeLabel_def
  fence_def startsWithMermaid_def stripMermaidKeyword_def toLowerCase_char_def

lemma replaceAll_semicolon: "replaceAll '';'' [] s = filter (\<lambda>c. c \<noteq> CHR '';'') s"
  by (induction s) auto

lemma set_trim: "set (trim s) \<subseteq> set s"
  by (auto simp: trim_def dest!: set_dropWhileD)

lemma prefix_append_drop: "prefix p t \<Longrightarrow> t = p @ drop (length p) t"
  by (auto simp: prefix_def)

lemma findLabel_Some:
  "findLabel t = Some l \<Longrightarrow> t = l @ '' -->'' @ drop (length l + 4) t"
proof (induction t arbitrary: l)
  case Nil
  then show ?case by simp
next
  case (Cons c cs)
  show ?case
  proof (cases "prefix '' -->'' (c # cs)")
    case True
    then have "c # cs = '' -->'' @ drop (length '' -->'') (c # cs)"
      by (rule prefix_append_drop)
    moreover from True Cons.prems have "l = []" by simp
    ultimately show ?thesis by (simp add: numeral_3_eq_3)
  next
    case False
    with Cons.prems obtain l' where l: "l = c # l'" and sub: "findLabel cs = Some l'"
      by (auto split: if_splits)
    from Cons.IH [OF sub] have "cs = l' @ '' -->'' @ drop (length l' + 4) cs" .
    moreover have "drop (length (c # l') + 4) (c # cs) = drop (length l' + 4) cs"
    proof -
      have "length (c # l') + 4 = Suc (length l' + 4)" by simp
      then show ?thesis by (simp only: drop_Suc_Cons)
    qed
    ultimately have "c # cs = (c # l') @ '' -->'' @ drop (length (c # l') + 4) (c # cs)"
      by (simp only: append_Cons)
    with l show ?thesis by (simp only:)
  qed
qed

lemma findLabel_set: "findLabel t = Some l \<Longrightarrow> set l \<subseteq> set t"
  using findLabel_Some [of t l] by (metis set_append sup_ge1)

lemma set_safeLabel: "set (safeLabel l) \<subseteq> insert (CHR 0x27) (set l)"
  by (auto simp: safeLabel_def)

lemma requote_skip:
  "\<not> prefix '' -- '' (c # cs) \<Longrightarrow> requote (c # cs) = c # requote cs"
  by (simp only: requote.simps if_False)

lemma requote_none:
  "prefix '' -- '' (c # cs) \<Longrightarrow> findLabel (drop 3 cs) = None \<Longrightarrow>
   requote (c # cs) = c # requote cs"
  by (simp only: requote.simps if_True option.case)

lemma requote_match:
  "prefix '' -- '' (c # cs) \<Longrightarrow> findLabel (drop 3 cs) = Some lbl \<Longrightarrow>
   requote (c # cs) = '' -- '' @ [CHR 0x22] @ safeLabel lbl @ [CHR 0x22] @ '' -->''
                  @ requote (drop (3 + length lbl + 4) cs)"
  by (simp only: requote.simps if_True option.case)

lemma set_requote:
  "set (requote s) \<subseteq> set s \<union> {CHR '' '', CHR ''-'', CHR ''>'', CHR 0x22, CHR 0x27}"
proof (induction s rule: requote.induct)
  case 1
  show ?case by simp
next
  case (2 c cs)
  show ?case
  proof (cases "prefix '' -- '' (c # cs)")
    case False
    with 2 have "set (requote cs)
        \<subseteq> set cs \<union> {CHR '' '', CHR ''-'', CHR ''>'', CHR 0x22, CHR 0x27}"
      by blast
    moreover from False have "requote (c # cs) = c # requote cs" by (rule requote_skip)
    ultimately show ?thesis by auto
  next
    case True
    show ?thesis
    proof (cases "findLabel (drop 3 cs)")
      case None
      with True 2 have "set (requote cs)
          \<subseteq> set cs \<union> {CHR '' '', CHR ''-'', CHR ''>'', CHR 0x22, CHR 0x27}"
        by blast
      moreover from True None have "requote (c # cs) = c # requote cs" by (rule requote_none)
      ultimately show ?thesis by auto
    next
      case (Some lbl)
      from Some have "set lbl \<subseteq> set (drop 3 cs)" by (rule findLabel_set)
      then have lbl: "set lbl \<subseteq> set cs" using set_drop_subset by fastforce
      have rest: "set (drop (3 + length lbl + 4) cs) \<subseteq> set cs"
        by (rule set_drop_subset)
      from 2 True Some rest
      have ih: "set (requote (drop (3 + length lbl + 4) cs))
          \<subseteq> set cs \<union> {CHR '' '', CHR ''-'', CHR ''>'', CHR 0x22, CHR 0x27}"
        by blast
      have req: "requote (c # cs) = '' -- '' @ [CHR 0x22] @ safeLabel lbl @ [CHR 0x22] @ '' -->''
                  @ requote (drop (3 + length lbl + 4) cs)"
        using True Some by (rule requote_match)
      show ?thesis
        unfolding req using ih lbl set_safeLabel [of lbl] by auto
    qed
  qed
qed

lemma semicolon_free_sanitize: "CHR '';'' \<notin> set (sanitize x)"
proof -
  have "CHR '';'' \<notin> set (trim (replaceAll '';'' [] y))" for y
    using set_trim [of "replaceAll '';'' [] y"] by (auto simp: replaceAll_semicolon)
  then have "CHR '';'' \<notin> set (requote (trim (replaceAll '';'' [] y)))" for y
    using set_requote [of "trim (replaceAll '';'' [] y)"] by auto
  then show ?thesis by (simp add: sanitize_def Let_def)
qed

text \<open>
  C9. Semicolons. The rule \<^verbatim>\<open>.replace(/;/g, "")\<close> keeps exactly the code units that are
  not semicolons, and no later rule brings one back: the cleaned chart contains no
  semicolon at all, so in particular none that ends a statement, as in the two-line
  chart \<^verbatim>\<open>graph TD;\<close>, \<^verbatim>\<open>A-->B;\<close>.
\<close>

theorem sanitize_strips_semicolons:
  "CHR '';'' \<notin> set (sanitize x)
   \<and> replaceAll '';'' [] y = filter (\<lambda>c. c \<noteq> CHR '';'') y
   \<and> sanitize (''graph TD;'' @ [CHR 0x0A] @ ''A-->B;'') = ''flowchart TD'' @ [CHR 0x0A] @ ''A-->B''"
proof -
  have "sanitize (''graph TD;'' @ [CHR 0x0A] @ ''A-->B;'') = ''flowchart TD'' @ [CHR 0x0A] @ ''A-->B''"
    by (simp add: sanitize_defs)
  with semicolon_free_sanitize replaceAll_semicolon show ?thesis by blast
qed

text \<open>The rule is not limited to the ends of statements: a semicolon inside an edge
  label or inside quoted text is removed as well.\<close>

lemma sanitize_strips_label_semicolons:
  "sanitize ''A -- a;b --> B'' = ''A -- '' @ [CHR 0x22] @ ''ab'' @ [CHR 0x22] @ '' --> B''
   \<and> sanitize (''A['' @ [CHR 0x22] @ ''x;y'' @ [CHR 0x22] @ '']'')
       = ''A['' @ [CHR 0x22] @ ''xy'' @ [CHR 0x22] @ '']''"
  by (simp add: sanitize_defs)

lemma replaceAll_absent: "\<not> includes_str pat s \<Longrightarrow> replaceAll pat rep s = s"
  by (induction s) auto

lemma includes_str_set: "includes_str pat s \<Longrightarrow> set pat \<subseteq> set s"
proof (induction s)
  case Nil
  then show ?case by simp
next
  case (Cons c cs)
  from Cons.prems have "prefix pat (c # cs) \<or> includes_str pat cs" by simp
  then show ?case
  proof
    assume "prefix pat (c # cs)"
    then show ?thesis by (rule set_mono_prefix)
  next
    assume "includes_str pat cs"
    then have "set pat \<subseteq> set cs" by (rule Cons.IH)
    then show ?thesis by auto
  qed
qed

lemma includes_str_prefix: "prefix p q \<Longrightarrow> includes_str q s \<Longrightarrow> includes_str p s"
proof (induction s)
  case Nil
  then show ?case by simp
next
  case (Cons c cs)
  from Cons.prems(2) have "prefix q (c # cs) \<or> includes_str q cs" by simp
  then show ?case
  proof
    assume "prefix q (c # cs)"
    with Cons.prems(1) have "prefix p (c # cs)" by (rule prefix_order.trans)
    then show ?thesis by simp
  next
    assume "includes_str q cs"
    with Cons.prems(1) have "includes_str p cs" by (rule Cons.IH)
    then show ?thesis by simp
  qed
qed

lemma requote_absent: "\<not> hasEdgeLabel s \<Longrightarrow> requote s = s"
proof (induction s)
  case Nil
  show ?case by simp
next
  case (Cons c cs)
  from Cons.prems have rest: "\<not> hasEdgeLabel cs"
    and here: "\<not> (prefix '' -- '' (c # cs) \<and> findLabel (drop 3 cs) \<noteq> None)"
    by (simp_all only: hasEdgeLabel.simps) blast+
  from rest have ih: "requote cs = cs" by (rule Cons.IH)
  show ?case
  proof (cases "prefix '' -- '' (c # cs)")
    case False
    then have "requote (c # cs) = c # requote cs" by (rule requote_skip)
    with ih show ?thesis by simp
  next
    case True
    with here have "findLabel (drop 3 cs) = None" by blast
    with True have "requote (c # cs) = c # requote cs" by (rule requote_none)
    with ih show ?thesis by simp
  qed
qed

lemma dropWhile_fixed_iff: "dropWhile P xs = xs \<longleftrightarrow> xs = [] \<or> \<not> P (hd xs)"
proof (cases xs)
  case Nil
  then show ?thesis by simp
next
  case (Cons x xs')
  have "dropWhile P xs' \<noteq> x # xs'"
  proof
    assume "dropWhile P xs' = x # xs'"
    then have "length (dropWhile P xs') = Suc (length xs')" by simp
    with length_dropWhile_le [of P xs'] show False by simp
  qed
  with Cons show ?thesis by simp
qed

lemma dropWhile_same_length: "length (dropWhile P xs) = length xs \<Longrightarrow> dropWhile P xs = xs"
proof (cases xs)
  case Nil
  then show ?thesis by simp
next
  case (Cons x xs')
  assume len: "length (dropWhile P xs) = length xs"
  show ?thesis
  proof (cases "P x")
    case True
    with Cons len have "length (dropWhile P xs') = Suc (length xs')" by simp
    with length_dropWhile_le [of P xs'] show ?thesis by simp
  next
    case False
    with Cons show ?thesis by simp
  qed
qed

lemma trim_fixed_iff:
  "trim s = s \<longleftrightarrow> s = [] \<or> (\<not> isSpace (hd s) \<and> \<not> isSpace (last s))"
proof
  assume fixed: "trim s = s"
  let ?t = "dropWhile isSpace s"
  let ?u = "dropWhile isSpace (rev ?t)"
  from fixed have "rev ?u = s" by (simp add: trim_def)
  then have "length ?u = length s" by (metis length_rev)
  moreover have "length ?u \<le> length ?t"
    using length_dropWhile_le [of isSpace "rev ?t"] by simp
  moreover have "length ?t \<le> length s" by (rule length_dropWhile_le)
  ultimately have "length ?t = length s" by simp
  then have t: "?t = s" by (rule dropWhile_same_length)
  with \<open>rev ?u = s\<close> have "rev (dropWhile isSpace (rev s)) = s" by simp
  then have "dropWhile isSpace (rev s) = rev s" by (metis rev_rev_ident)
  then have "rev s = [] \<or> \<not> isSpace (hd (rev s))" by (simp only: dropWhile_fixed_iff)
  moreover from t have "s = [] \<or> \<not> isSpace (hd s)" by (simp only: dropWhile_fixed_iff)
  ultimately show "s = [] \<or> (\<not> isSpace (hd s) \<and> \<not> isSpace (last s))"
    by (auto simp: hd_rev)
next
  assume "s = [] \<or> (\<not> isSpace (hd s) \<and> \<not> isSpace (last s))"
  then have "dropWhile isSpace s = s" and "dropWhile isSpace (rev s) = rev s"
    by (auto simp: dropWhile_fixed_iff hd_rev)
  then show "trim s = s" by (simp add: trim_def)
qed

lemma trim_trim: "trim (trim s) = trim s"
proof -
  let ?t = "dropWhile isSpace s"
  let ?u = "dropWhile isSpace (rev ?t)"
  have tr: "trim s = rev ?u" by (simp add: trim_def)
  show ?thesis
  proof (cases "?u = []")
    case True
    with tr have "trim s = []" by simp
    moreover have "trim [] = []" by (simp add: trim_def)
    ultimately show ?thesis by (simp only:)
  next
    case False
    then have first: "\<not> isSpace (hd ?u)" by (rule hd_dropWhile)
    have "rev ?t \<noteq> []"
    proof
      assume "rev ?t = []"
      then have "?u = []" by (simp only: dropWhile.simps)
      with False show False by contradiction
    qed
    then have tne: "?t \<noteq> []" by (simp only: rev_is_Nil_conv not_False_eq_True)
    then have "\<not> isSpace (hd ?t)" by (rule hd_dropWhile)
    moreover have "last ?u = last (rev ?t)"
      using False by (metis dropWhile_eq_drop last_drop length_0_conv not_less drop_eq_Nil
          leI)
    ultimately have "\<not> isSpace (last ?u)" using tne by (simp add: last_rev)
    with first False have "\<not> isSpace (hd (rev ?u)) \<and> \<not> isSpace (last (rev ?u))"
      by (simp add: hd_rev last_rev)
    then have "trim (rev ?u) = rev ?u" by (simp only: trim_fixed_iff) simp
    with tr show ?thesis by simp
  qed
qed

lemma match_decompose:
  assumes "prefix '' -- '' (c # cs)" and "findLabel (drop 3 cs) = Some lbl"
  shows "c # cs = '' -- '' @ lbl @ '' -->'' @ drop (3 + length lbl + 4) cs"
proof -
  from assms(1) have "c # cs = '' -- '' @ drop (length '' -- '') (c # cs)"
    by (rule prefix_append_drop)
  then have whole: "c # cs = '' -- '' @ drop 3 cs" by (simp add: numeral_3_eq_3)
  from assms(2) have "drop 3 cs = lbl @ '' -->'' @ drop (length lbl + 4) (drop 3 cs)"
    by (rule findLabel_Some)
  then have "drop 3 cs = lbl @ '' -->'' @ drop (3 + length lbl + 4) cs"
    by (simp add: add.commute add.left_commute)
  with whole show ?thesis by (simp only:)
qed

lemma requote_Nil_iff: "requote s = [] \<longleftrightarrow> s = []"
proof (cases s)
  case Nil
  then show ?thesis by simp
next
  case (Cons c cs)
  have "requote (c # cs) \<noteq> []"
  proof (cases "prefix '' -- '' (c # cs)")
    case False
    then have "requote (c # cs) = c # requote cs" by (rule requote_skip)
    then show ?thesis by (simp only:) simp
  next
    case True
    show ?thesis
    proof (cases "findLabel (drop 3 cs)")
      case None
      with True have "requote (c # cs) = c # requote cs" by (rule requote_none)
      then show ?thesis by (simp only:) simp
    next
      case (Some lbl)
      with True have "requote (c # cs)
          = '' -- '' @ [CHR 0x22] @ safeLabel lbl @ [CHR 0x22] @ '' -->''
              @ requote (drop (3 + length lbl + 4) cs)"
        by (rule requote_match)
      then show ?thesis by (simp only:) simp
    qed
  qed
  with Cons show ?thesis by (simp only:) simp
qed

lemma hd_requote: "hd (requote s) = hd s"
proof (cases s)
  case Nil
  then show ?thesis by simp
next
  case (Cons c cs)
  show ?thesis
  proof (cases "prefix '' -- '' (c # cs)")
    case False
    then have "requote (c # cs) = c # requote cs" by (rule requote_skip)
    with Cons show ?thesis by (simp only:) simp
  next
    case True
    then have c: "c = CHR '' ''" by simp
    show ?thesis
    proof (cases "findLabel (drop 3 cs)")
      case None
      with True have "requote (c # cs) = c # requote cs" by (rule requote_none)
      with Cons show ?thesis by (simp only:) simp
    next
      case (Some lbl)
      with True have "requote (c # cs)
          = '' -- '' @ [CHR 0x22] @ safeLabel lbl @ [CHR 0x22] @ '' -->''
              @ requote (drop (3 + length lbl + 4) cs)"
        by (rule requote_match)
      with Cons c show ?thesis by (simp only:) simp
    qed
  qed
qed

lemma last_requote: "s \<noteq> [] \<Longrightarrow> last (requote s) = last s"
proof (induction s rule: requote.induct)
  case 1
  then show ?case by simp
next
  case (2 c cs)
  have skip: "last (c # requote cs) = last (c # cs)"
    if ih: "cs \<noteq> [] \<Longrightarrow> last (requote cs) = last cs"
  proof (cases "cs = []")
    case True
    then show ?thesis by simp
  next
    case False
    with ih have "last (requote cs) = last cs" by blast
    with False show ?thesis by (simp add: requote_Nil_iff)
  qed
  show ?case
  proof (cases "prefix '' -- '' (c # cs)")
    case False
    with 2 have "cs \<noteq> [] \<Longrightarrow> last (requote cs) = last cs" by blast
    then have "last (c # requote cs) = last (c # cs)" by (rule skip)
    moreover from False have "requote (c # cs) = c # requote cs" by (rule requote_skip)
    ultimately show ?thesis by (simp only:)
  next
    case True
    show ?thesis
    proof (cases "findLabel (drop 3 cs)")
      case None
      with True 2 have "cs \<noteq> [] \<Longrightarrow> last (requote cs) = last cs" by blast
      then have "last (c # requote cs) = last (c # cs)" by (rule skip)
      moreover from True None have "requote (c # cs) = c # requote cs" by (rule requote_none)
      ultimately show ?thesis by (simp only:)
    next
      case (Some lbl)
      let ?rest = "drop (3 + length lbl + 4) cs"
      from True Some have whole: "c # cs = '' -- '' @ lbl @ '' -->'' @ ?rest"
        by (rule match_decompose)
      from True Some have out: "requote (c # cs)
          = '' -- '' @ [CHR 0x22] @ safeLabel lbl @ [CHR 0x22] @ '' -->'' @ requote ?rest"
        by (rule requote_match)
      show ?thesis
      proof (cases "?rest = []")
        case True
        then have "last (c # cs) = CHR ''>''"
          by (subst whole) simp
        moreover from True have "last (requote (c # cs)) = CHR ''>''"
          by (subst out) simp
        ultimately show ?thesis by simp
      next
        case False
        with 2 \<open>prefix '' -- '' (c # cs)\<close> Some
        have ih: "last (requote ?rest) = last ?rest" by blast
        from False have "last (c # cs) = last ?rest"
          by (subst whole) simp
        moreover from False have "last (requote (c # cs)) = last (requote ?rest)"
          by (subst out) (simp add: requote_Nil_iff)
        ultimately show ?thesis using ih by simp
      qed
    qed
  qed
qed

lemma trim_requote: "trim s = s \<Longrightarrow> trim (requote s) = requote s"
proof (cases "s = []")
  case True
  then show ?thesis by (simp add: trim_def)
next
  case False
  assume "trim s = s"
  with False have "\<not> isSpace (hd s) \<and> \<not> isSpace (last s)"
    by (simp add: trim_fixed_iff)
  with False have "\<not> isSpace (hd (requote s)) \<and> \<not> isSpace (last (requote s))"
    by (simp add: hd_requote last_requote)
  then show ?thesis by (simp only: trim_fixed_iff) simp
qed

lemma trim_sanitize: "trim (sanitize x) = sanitize x"
  unfolding sanitize_def Let_def by (rule trim_requote) (rule trim_trim)

text \<open>
  C1 (amended). The cleanup is a function of the chart, and it leaves its own result
  alone whenever no rule has anything left to rewrite there: if the cleaned chart
  contains no fence, does not start with the keyword \<^verbatim>\<open>mermaid\<close> in any letter case,
  does not contain \<^verbatim>\<open>graph TD\<close> and has no match of the edge-label pattern, then
  cleaning it again gives it back. (A cleaned chart never contains a semicolon, hence no
  entity, and is always trimmed.)
\<close>

theorem sanitize_fixed_point:
  assumes "\<not> includes_str fence (sanitize x)"
    and "\<not> startsWithMermaid (sanitize x)"
    and "\<not> includes_str ''graph TD'' (sanitize x)"
    and "\<not> hasEdgeLabel (sanitize x)"
  shows "sanitize (sanitize x) = sanitize x"
proof -
  let ?y = "sanitize x"
  have semi: "CHR '';'' \<notin> set ?y" by (rule semicolon_free_sanitize)
  have no_entity: "\<not> includes_str pat ?y" if "CHR '';'' \<in> set pat" for pat
    using includes_str_set [of pat ?y] semi that by blast
  have c1: "replaceAll ''&gt;'' ''>'' ?y = ?y"
    by (rule replaceAll_absent) (rule no_entity, simp)
  have c2: "replaceAll ''&lt;'' ''<'' ?y = ?y"
    by (rule replaceAll_absent) (rule no_entity, simp)
  have c3: "replaceAll ''&quot;'' [CHR 0x22] ?y = ?y"
    by (rule replaceAll_absent) (rule no_entity, simp)
  have "\<not> includes_str (fence @ ''mermaid'') ?y"
    using includes_str_prefix [of fence "fence @ ''mermaid''" ?y] assms(1) by auto
  then have c4: "replaceAll (fence @ ''mermaid'') [] ?y = ?y"
    by (rule replaceAll_absent)
  from assms(1) have c5: "replaceAll fence [] ?y = ?y"
    by (rule replaceAll_absent)
  from assms(2) have c6: "stripMermaidKeyword ?y = ?y"
    by (simp add: stripMermaidKeyword_def)
  from assms(3) have c7: "replaceAll ''graph TD'' ''flowchart TD'' ?y = ?y"
    by (rule replaceAll_absent)
  from semi have c8: "replaceAll '';'' [] ?y = ?y"
    by (auto simp: replaceAll_semicolon filter_id_conv)
  have c9: "trim ?y = ?y" by (rule trim_sanitize)
  from assms(4) have c10: "requote ?y = ?y" by (rule requote_absent)
  have "sanitize ?y = requote (trim (replaceAll '';'' [] (replaceAll ''graph TD'' ''flowchart TD''
      (stripMermaidKeyword (replaceAll fence [] (replaceAll (fence @ ''mermaid'') []
        (replaceAll ''&quot;'' [CHR 0x22] (replaceAll ''&lt;'' ''<''
          (replaceAll ''&gt;'' ''>'' ?y)))))))))"
    by (simp only: sanitize_def [of ?y] Let_def)
  also have "\<dots> = ?y"
    by (simp only: c1 c2 c3 c4 c5 c6 c7 c8 c9 c10)
  finally show ?thesis .
qed

theorem sanitize_fixed_point_witness:
  "sanitize (fence @ ''mermaid'' @ [CHR 0x0A] @ ''graph TD;'' @ [CHR 0x0A] @ ''A--&gt;B;''
       @ [CHR 0x0A] @ fence)
     = ''flowchart TD'' @ [CHR 0x0A] @ ''A-->B''
   \<and> \<not> includes_str fence (''flowchart TD'' @ [CHR 0x0A] @ ''A-->B'')
   \<and> \<not> startsWithMermaid (''flowchart TD'' @ [CHR 0x0A] @ ''A-->B'')
   \<and> \<not> includes_str ''graph TD'' (''flowchart TD'' @ [CHR 0x0A] @ ''A-->B'')
   \<and> \<not> hasEdgeLabel (''flowchart TD'' @ [CHR 0x0A] @ ''A-->B'')
   \<and> sanitize (''flowchart TD'' @ [CHR 0x0A] @ ''A-->B'')
     = ''flowchart TD'' @ [CHR 0x0A] @ ''A-->B''"
proof -
  let ?x = "fence @ ''mermaid'' @ [CHR 0x0A] @ ''graph TD;'' @ [CHR 0x0A] @ ''A--&gt;B;''
       @ [CHR 0x0A] @ fence"
  let ?y = "''flowchart TD'' @ [CHR 0x0A] @ ''A-->B''"
  have val: "sanitize ?x = ?y"
    by (simp add: sanitize_defs)
  have h1: "\<not> includes_str fence ?y" by (simp add: fence_def)
  have h2: "\<not> startsWithMermaid ?y"
    by (simp add: startsWithMermaid_def toLowerCase_char_def)
  have h3: "\<not> includes_str ''graph TD'' ?y" by simp
  have h4: "\<not> hasEdgeLabel ?y" by simp
  from sanitize_fixed_point [of ?x, unfolded val, OF h1 h2 h3 h4]
  have "sanitize ?y = ?y" .
  with val h1 h2 h3 h4 show ?thesis by blast
qed

text \<open>
  The claim as it was stated fails on a chart with an edge label, which the component
  does clean (it is not empty): the label is quoted by the first cleanup and quoted
  again, around the first quotes turned into apostrophes, by the second.
\<close>

theorem sanitize_idempotent_counterexample:
  "\<not> isEmptyChart ''A -- x --> B''
   \<and> sanitize ''A -- x --> B'' = ''A -- '' @ [CHR 0x22] @ ''x'' @ [CHR 0x22] @ '' --> B''
   \<and> \<not> isEmptyChart (sanitize ''A -- x --> B'')
   \<and> sanitize (sanitize ''A -- x --> B'')
       = ''A -- '' @ [CHR 0x22, CHR 0x27] @ ''x'' @ [CHR 0x27, CHR 0x22] @ '' --> B''
   \<and> sanitize (sanitize ''A -- x --> B'') \<noteq> sanitize ''A -- x --> B''"
  by (simp add: sanitize_defs isEmptyChart_def)

text \<open>The other three conditions are needed as well: removing a semicolon, or trimming,
  can complete a keyword or a fence that the earlier rules have already passed.\<close>

lemma sanitize_twice_keyword:
  "sanitize ''gra;ph TD'' = ''graph TD'' \<and> sanitize ''graph TD'' = ''flowchart TD''"
  by (simp add: sanitize_defs)

lemma sanitize_twice_mermaid:
  "sanitize '' mermaid'' = ''mermaid'' \<and> sanitize ''mermaid'' = []"
  by (simp add: sanitize_defs)

lemma sanitize_twice_fence:
  "sanitize ([CHR 0x60, CHR '';'', CHR 0x60, CHR 0x60] @ ''a'') = fence @ ''a''
   \<and> sanitize (fence @ ''a'') = ''a''"
  by (simp add: sanitize_defs)

end
